theory Spec2Isabelle
  imports Main "HOL-Library.Word" "HOL-Library.Sublist"
begin

unbundle bit_operations_syntax

section \<open>Go primitives shared by the embedded code\<close>

text \<open>
  \<open>time.Duration\<close> is a count of nanoseconds. Go's \<open>int\<close> is the 64-bit signed integer of
  the platforms the relay is built for; it is embedded as \<open>int\<close> with the bounds written
  out where the code can reach them (\<open>strconv.Atoi\<close>, the loop counter of the port range).
\<close>

type_synonym duration = int

definition Second :: duration where
  "Second = 1000000000"

definition maxInt :: int where
  "maxInt = 9223372036854775807"

definition minInt :: int where
  "minInt = - 9223372036854775808"

datatype level = TraceLevel | DebugLevel | InfoLevel | WarnLevel | ErrorLevel | FatalLevel

subsection \<open>Decimal numerals: \<open>strconv.Itoa\<close>, \<open>strconv.Atoi\<close>, the verb \<open>%d\<close>\<close>

definition is_digit :: "char \<Rightarrow> bool" where
  "is_digit c = (c \<in> set ''0123456789'')"

definition digit_val :: "char \<Rightarrow> int" where
  "digit_val c = of_char c - 48"

definition dec_val :: "string \<Rightarrow> int" where
  "dec_val ds = foldl (\<lambda>n c. 10 * n + digit_val c) 0 ds"

definition digit_char :: "nat \<Rightarrow> char" where
  "digit_char n = ''0123456789'' ! n"

fun dec_str :: "nat \<Rightarrow> string" where
  "dec_str n = (if n < 10 then [digit_char n] else dec_str (n div 10) @ [digit_char (n mod 10)])"

declare dec_str.simps [simp del]

definition Itoa :: "int \<Rightarrow> string" where
  "Itoa i = (if i < 0 then CHR ''-'' # dec_str (nat (- i)) else dec_str (nat i))"

text \<open>
  \<open>strconv.Atoi\<close> on a 64-bit platform, with the error result dropped as the caller drops
  it (\<open>num, _ = strconv.Atoi(..)\<close>): an optional sign and at least one digit; a value
  outside the range of \<open>int\<close> comes back as the nearest bound (with \<open>ErrRange\<close>), and a
  string that is no numeral as 0 (with \<open>ErrSyntax\<close>).
\<close>

definition digits :: "string \<Rightarrow> bool" where
  "digits ds = (ds \<noteq> [] \<and> list_all is_digit ds)"

definition Atoi :: "string \<Rightarrow> int" where
  "Atoi str =
     (case str of
        [] \<Rightarrow> 0
      | c # cs \<Rightarrow>
          if c = CHR ''-'' then (if digits cs then max (- dec_val cs) minInt else 0)
          else if c = CHR ''+'' then (if digits cs then min (dec_val cs) maxInt else 0)
          else if digits str then min (dec_val str) maxInt else 0)"

subsection \<open>Scopes, connections, goroutines and effects\<close>

text \<open>
  A cancellation scope (\<open>context.Context\<close> with its \<open>CancelFunc\<close>), a network connection
  (\<open>net.Conn\<close>, \<open>*websocket.Conn\<close>) and a multiplexed stream (\<open>*smux.Stream\<close>) are known
  by identity. The usage monitor is opaque to the transport: it is the record of the call
  \<open>utils.NewDataStore(addr, ctx, snifferLog, logger)\<close> that made it.
\<close>

type_synonym scope = nat
type_synonym conn = nat
type_synonym stream = nat

datatype usage = NewDataStore string scope string

datatype smux_role = SmuxClient | SmuxServer

record smux_Config =
  Version :: int
  KeepAliveInterval :: duration
  KeepAliveTimeout :: duration
  MaxFrameSize :: int
  MaxReceiveBuffer :: int
  MaxStreamBuffer :: int

text \<open>
  A session as \<open>smux.Client(conn, &config)\<close> or \<open>smux.Server(conn, &config)\<close> makes it:
  the connection it wraps, the side it plays and its configuration.
\<close>

record session =
  sess_conn :: conn
  sess_role :: smux_role
  sess_config :: smux_Config

record net_Dialer =
  Timeout :: duration
  KeepAlive :: duration

text \<open>The goroutines the code starts with \<open>go\<close>, each with the arguments of the call.\<close>

datatype task =
    go_Restart
  | go_ChannelDialer
  | go_channelListener
  | go_tunnelDialer
  | go_Monitor usage
  | go_handleWSSession conn
  | go_localDialer conn "16 word"
  | go_WSToTCPConnHandler conn conn usage int bool
  | go_TunnelListener
  | go_acceptStreamConn nat
  | go_portConfigReader
  | go_localListener string int
  | go_handleMUXSession int
  | go_ConnectionHandler stream conn usage int bool

text \<open>
  What a function does to the world, in the order it does it. A log entry keeps the level
  and the format string; \<open>Exit\<close> is the \<open>os.Exit(1)\<close> that ends \<open>logger.Fatalf\<close>;
  \<open>Crash\<close> is a run-time panic.
\<close>

datatype effect =
    Log level string
  | Go task
  | CancelScope scope
  | Sleep duration
  | Close conn
  | CloseSession session
  | DialTCP net_Dialer string
  | SetKeepAlive conn bool
  | SetKeepAlivePeriod conn duration
  | OpenStream session
  | SendBinaryString stream string
  | SendBinaryInt stream "16 word"
  | WgDone
  | After duration
  | Exit
  | Crash string

section \<open>cmd/defaults.go\<close>

definition defaultToken :: string where "defaultToken = ''sahmadiut''"
definition defaultChannelSize :: int where "defaultChannelSize = 2048"
definition defaultRetryInterval :: int where "defaultRetryInterval = 1"
definition defaultConnectionPool :: int where "defaultConnectionPool = 8"
definition defaultLogLevel :: string where "defaultLogLevel = ''info''"
definition defaultMuxSession :: int where "defaultMuxSession = 1"
definition defaultKeepAlive :: int where "defaultKeepAlive = 20"
definition defaultMuxVersion :: int where "defaultMuxVersion = 1"
definition defaultMaxFrameSize :: int where "defaultMaxFrameSize = 32768"
definition defaultMaxReceiveBuffer :: int where "defaultMaxReceiveBuffer = 4194304"
definition defaultMaxStreamBuffer :: int where "defaultMaxStreamBuffer = 65536"
definition defaultSnifferLog :: string where "defaultSnifferLog = ''backhaul.json''"
definition deafultHeartbeat :: int where "deafultHeartbeat = 20"

text \<open>
  Modelled from the spec: the transport constants of package \<open>config\<close>, which is not among
  the sources (transport kind is one of TCP, TCPMUX, WS, WSS; the default is TCP).
\<close>

definition TCP :: string where "TCP = ''tcp''"
definition TCPMUX :: string where "TCPMUX = ''tcpmux''"
definition WS :: string where "WS = ''ws''"
definition WSS :: string where "WSS = ''wss''"
definition defaultTransport :: string where "defaultTransport = TCP"

text \<open>
  \<open>config.Config\<close> with its two halves \<open>cfg.Server\<close> and \<open>cfg.Client\<close>; the field
  \<open>cfg.Server.Token\<close> is \<open>Server_Token cfg\<close>. Only the fields \<open>applyDefaults\<close> reads or
  writes are kept.
\<close>

record Config =
  Server_Transport :: string
  Client_Transport :: string
  Server_Token :: string
  Client_Token :: string
  Server_ChannelSize :: int
  Client_LogLevel :: string
  Server_LogLevel :: string
  Client_RetryInterval :: int
  Server_ConnectionPool :: int
  Server_MuxSession :: int
  Client_MuxSession :: int
  Server_Keepalive :: int
  Client_Keepalive :: int
  Server_MuxVersion :: int
  Client_MuxVersion :: int
  Server_MaxFrameSize :: int
  Client_MaxFrameSize :: int
  Server_MaxReceiveBuffer :: int
  Client_MaxReceiveBuffer :: int
  Server_MaxStreamBuffer :: int
  Client_MaxStreamBuffer :: int
  Server_SnifferLog :: string
  Client_SnifferLog :: string
  Server_Heartbeat :: int

text \<open>
  The two \<open>switch\<close> statements on the transport: a valid value is kept, the empty string
  is replaced silently, anything else is replaced with a warning.
\<close>

definition validTransport :: "string \<Rightarrow> bool" where
  "validTransport t = (t = TCP \<or> t = TCPMUX \<or> t = WS \<or> t = WSS)"

definition transportDefault :: "string \<Rightarrow> string" where
  "transportDefault t = (if validTransport t then t else defaultTransport)"

definition transportWarns :: "string \<Rightarrow> bool" where
  "transportWarns t = (\<not> validTransport t \<and> t \<noteq> [])"

text \<open>
  \<open>applyDefaults\<close>, one field update per statement of the source, in the source's order.
  Every statement reads and writes one field only (\<open>if cfg.Server.Token == "" { cfg.Server.Token
  = defaultToken }\<close>), so each is the update of that field by a conditional value.
  \<open>parseLevelOk l\<close> says whether \<open>logrus.ParseLevel l\<close> returns no error (logrus is a
  third-party library). \<open>applyDefaultsWarnings\<close> lists the roles for which the
  invalid-transport warning is logged.
\<close>

definition applyDefaults :: "(string \<Rightarrow> bool) \<Rightarrow> Config \<Rightarrow> Config" where
  "applyDefaults parseLevelOk cfg =
     cfg\<lparr>
       Server_Transport := transportDefault (Server_Transport cfg),
       Client_Transport := transportDefault (Client_Transport cfg),
       Server_Token := (if Server_Token cfg = [] then defaultToken else Server_Token cfg),
       Client_Token := (if Client_Token cfg = [] then defaultToken else Client_Token cfg),
       Server_ChannelSize := (if Server_ChannelSize cfg \<le> 0 then defaultChannelSize else Server_ChannelSize cfg),
       Client_LogLevel := (if \<not> parseLevelOk (Client_LogLevel cfg) then defaultLogLevel else Client_LogLevel cfg),
       Server_LogLevel := (if \<not> parseLevelOk (Server_LogLevel cfg) then defaultLogLevel else Server_LogLevel cfg),
       Client_RetryInterval := (if Client_RetryInterval cfg \<le> 0 then defaultRetryInterval else Client_RetryInterval cfg),
       Server_ConnectionPool := (if Server_ConnectionPool cfg \<le> 0 then defaultConnectionPool else Server_ConnectionPool cfg),
       Server_MuxSession := (if Server_MuxSession cfg \<le> 0 then defaultMuxSession else Server_MuxSession cfg),
       Client_MuxSession := (if Client_MuxSession cfg \<le> 0 then defaultMuxSession else Client_MuxSession cfg),
       Server_Keepalive := (if Server_Keepalive cfg \<le> 0 then defaultKeepAlive else Server_Keepalive cfg),
       Client_Keepalive := (if Client_Keepalive cfg \<le> 0 then defaultKeepAlive else Client_Keepalive cfg),
       Server_MuxVersion := (if Server_MuxVersion cfg \<le> 0 \<or> Server_MuxVersion cfg > 2 then defaultMuxVersion else Server_MuxVersion cfg),
       Client_MuxVersion := (if Client_MuxVersion cfg \<le> 0 \<or> Client_MuxVersion cfg > 2 then defaultMuxVersion else Client_MuxVersion cfg),
       Server_MaxFrameSize := (if Server_MaxFrameSize cfg \<le> 0 then defaultMaxFrameSize else Server_MaxFrameSize cfg),
       Client_MaxFrameSize := (if Client_MaxFrameSize cfg \<le> 0 then defaultMaxFrameSize else Client_MaxFrameSize cfg),
       Server_MaxReceiveBuffer := (if Server_MaxReceiveBuffer cfg \<le> 0 then defaultMaxReceiveBuffer else Server_MaxReceiveBuffer cfg),
       Client_MaxReceiveBuffer := (if Client_MaxReceiveBuffer cfg \<le> 0 then defaultMaxReceiveBuffer else Client_MaxReceiveBuffer cfg),
       Server_MaxStreamBuffer := (if Server_MaxStreamBuffer cfg \<le> 0 then defaultMaxStreamBuffer else Server_MaxStreamBuffer cfg),
       Client_MaxStreamBuffer := (if Client_MaxStreamBuffer cfg \<le> 0 then defaultMaxStreamBuffer else Client_MaxStreamBuffer cfg),
       Server_SnifferLog := (if Server_SnifferLog cfg = [] then defaultSnifferLog else Server_SnifferLog cfg),
       Client_SnifferLog := (if Client_SnifferLog cfg = [] then defaultSnifferLog else Client_SnifferLog cfg),
       Server_Heartbeat := (if Server_Heartbeat cfg < 1 then deafultHeartbeat else Server_Heartbeat cfg)\<rparr>"

definition applyDefaultsWarnings :: "Config \<Rightarrow> string list" where
  "applyDefaultsWarnings cfg =
     (if transportWarns (Server_Transport cfg) then [''server''] else []) @
     (if transportWarns (Client_Transport cfg) then [''client''] else [])"

section \<open>internal/client/transport/ws.go\<close>

record WsConfig =
  RemoteAddr :: string
  Nodelay :: bool
  KeepAlive :: duration
  RetryInterval :: duration
  Token :: string
  Forwarder :: "int \<rightharpoonup> string"
  Sniffing :: bool
  WebPort :: int
  SnifferLog :: string

text \<open>
  \<open>WsTransport\<close>; the field \<open>c.ctx\<close> is \<open>c_ctx c\<close>. \<open>c_cancel\<close> holds the scope that the
  stored \<open>CancelFunc\<close> cancels (\<open>None\<close> for a nil function), \<open>c_controlChannel\<close> is
  \<open>None\<close> for a nil connection, and \<open>c_restartMutex\<close> is \<open>True\<close> while the mutex is held.
\<close>

record WsTransport =
  c_config :: WsConfig
  c_ctx :: scope
  c_cancel :: "scope option"
  c_controlChannel :: "conn option"
  c_timeout :: duration
  c_restartMutex :: bool
  c_heartbeatSig :: string
  c_chanSignal :: string
  c_usageMonitor :: usage

text \<open>\<open>NewWSClient\<close>; \<open>ctx\<close> is the scope that \<open>context.WithCancel(parentCtx)\<close> returns.\<close>

definition NewWSClient :: "scope \<Rightarrow> WsConfig \<Rightarrow> WsTransport" where
  "NewWSClient ctx config =
     \<lparr> c_config = config,
       c_ctx = ctx,
       c_cancel = Some ctx,
       c_controlChannel = None,
       c_timeout = 5 * Second,
       c_restartMutex = False,
       c_heartbeatSig = ''0'',
       c_chanSignal = ''1'',
       c_usageMonitor =
         NewDataStore ('':'' @ Itoa (WsConfig.WebPort config)) ctx (WsConfig.SnifferLog config) \<rparr>"

text \<open>
  \<open>(c *WsTransport) Restart\<close>, cut at its one suspension point, the \<open>time.Sleep\<close>:
  \<open>WsTransport_Restart_enter\<close> runs from \<open>TryLock\<close> to the sleep and says whether the lock
  was taken; \<open>WsTransport_Restart_resume\<close> runs from the end of the sleep to the deferred
  \<open>Unlock\<close>. \<open>fresh\<close> is the scope that \<open>context.WithCancel(context.Background())\<close> returns.
\<close>

definition WsTransport_Restart_enter :: "WsTransport \<Rightarrow> WsTransport \<times> effect list \<times> bool" where
  "WsTransport_Restart_enter c =
     (if c_restartMutex c then (c, [Log WarnLevel ''client is already restarting''], False)
      else (c\<lparr>c_restartMutex := True\<rparr>,
            [Log InfoLevel ''restarting client...''] @
            (case c_cancel c of None \<Rightarrow> [] | Some old \<Rightarrow> [CancelScope old]) @
            [Sleep (2 * Second)],
            True))"

definition WsTransport_Restart_resume :: "WsTransport \<Rightarrow> scope \<Rightarrow> WsTransport \<times> effect list" where
  "WsTransport_Restart_resume c fresh =
     (c\<lparr>c_ctx := fresh,
        c_cancel := Some fresh,
        c_controlChannel := None,
        c_usageMonitor :=
          NewDataStore ('':'' @ Itoa (WsConfig.WebPort (c_config c))) fresh
            (WsConfig.SnifferLog (c_config c)),
        c_restartMutex := False\<rparr>,
      [Go go_ChannelDialer])"

definition WsTransport_Restart :: "WsTransport \<Rightarrow> scope \<Rightarrow> WsTransport \<times> effect list" where
  "WsTransport_Restart c fresh =
     (case WsTransport_Restart_enter c of
        (c1, es1, False) \<Rightarrow> (c1, es1)
      | (c1, es1, True) \<Rightarrow>
          (case WsTransport_Restart_resume c1 fresh of (c2, es2) \<Rightarrow> (c2, es1 @ es2)))"

text \<open>
  Calls of \<open>Restart\<close> from several goroutines, interleaved: \<open>RestartCall\<close> is a goroutine
  reaching \<open>TryLock\<close> (and running on to the sleep if it gets the lock), \<open>RestartWake fresh\<close>
  is the end of the sleep of the restart that holds the lock. The second component counts
  the restarts in progress, those between their \<open>TryLock\<close> and their \<open>Unlock\<close>.
\<close>

datatype restart_event = RestartCall | RestartWake scope

fun ws_restart_step :: "WsTransport \<times> nat \<Rightarrow> restart_event \<Rightarrow> WsTransport \<times> nat" where
  "ws_restart_step (c, n) RestartCall =
     (case WsTransport_Restart_enter c of (c1, es, entered) \<Rightarrow> (c1, if entered then n + 1 else n))"
| "ws_restart_step (c, n) (RestartWake fresh) =
     (if c_restartMutex c then (fst (WsTransport_Restart_resume c fresh), n - 1) else (c, n))"

definition ws_restart_run :: "WsTransport \<Rightarrow> restart_event list \<Rightarrow> WsTransport \<times> nat" where
  "ws_restart_run c evs = foldl ws_restart_step (c, 0) evs"

text \<open>
  \<open>ChannelDialer\<close>. Each round of the loop observes whether the scope is done and, if it
  is not, the outcome of \<open>wsDialer(RemoteAddr, "/channel")\<close>: an error, which \<open>wsDialer\<close>
  logs before it returns it, or the connection. A run that uses up the observations is
  still dialing.
\<close>

datatype status = Returned | Running

fun ChannelDialer ::
  "WsTransport \<Rightarrow> (bool \<times> (string + conn)) list \<Rightarrow> WsTransport \<times> effect list \<times> status" where
  "ChannelDialer c [] = (c, [], Running)"
| "ChannelDialer c ((done, dialed) # rest) =
     (if done then (c, [], Returned)
      else
        (case dialed of
           Inl err \<Rightarrow>
             (case ChannelDialer c rest of
                (c', es, st) \<Rightarrow>
                  (c',
                   [Log InfoLevel ''attempting to establish a new webSocket control channel connection'',
                    Log ErrorLevel ''Failed to dial WebSocket server %s: %v'',
                    Log ErrorLevel ''failed to dial webSocket control channel: %v'',
                    Sleep (WsConfig.RetryInterval (c_config c))] @ es,
                   st))
         | Inr tunnelWSConn \<Rightarrow>
             (c\<lparr>c_controlChannel := Some tunnelWSConn\<rparr>,
              [Log InfoLevel ''attempting to establish a new webSocket control channel connection'',
               Log InfoLevel ''websocket control channel established successfully'',
               Go go_channelListener] @
              (if WsConfig.Sniffing (c_config c) then [Go (go_Monitor (c_usageMonitor c))] else []),
              Returned)))"

text \<open>
  \<open>channelListener\<close>. Each round observes whether the scope is done and, if it is not,
  what \<open>c.controlChannel.ReadMessage()\<close> returns: an error or the message. Reading from a
  nil control channel is a nil-pointer panic. \<open>channelSignal\<close> is the body of the loop
  after a successful read; its second component says whether the loop goes on.
\<close>

definition channelSignal :: "WsTransport \<Rightarrow> string \<Rightarrow> effect list \<times> bool" where
  "channelSignal c message =
     (if message = c_chanSignal c then ([Go go_tunnelDialer], True)
      else if message = c_heartbeatSig c then
        ([Log DebugLevel ''heartbeat received successfully''], True)
      else
        ([Log ErrorLevel ''unexpected response from control channel: %s. Restarting client...'',
          Go go_Restart], False))"

fun channelListener ::
  "WsTransport \<Rightarrow> (bool \<times> (string + string)) list \<Rightarrow> effect list \<times> status" where
  "channelListener c [] = ([], Running)"
| "channelListener c ((done, received) # rest) =
     (if done then ([], Returned)
      else
        (case c_controlChannel c of
           None \<Rightarrow> ([Crash ''invalid memory address or nil pointer dereference''], Returned)
         | Some ch \<Rightarrow>
             (case received of
                Inl err \<Rightarrow>
                  ([Log ErrorLevel ''error receiving channel signal: %v. Restarting client...'',
                    Go go_Restart], Returned)
              | Inr message \<Rightarrow>
                  (case channelSignal c message of
                     (es, False) \<Rightarrow> (es, Returned)
                   | (es, True) \<Rightarrow>
                       (case channelListener c rest of (es', st) \<Rightarrow> (es @ es', st))))))"



text \<open>
  The network as the client sees it: \<open>net.ResolveTCPAddr("tcp", address)\<close> gives an error
  or the resolved address as \<open>tcpAddr.String()\<close> prints it; \<open>dialer.Dial("tcp", addr)\<close>
  gives an error or a connection and whether it is a \<open>*net.TCPConn\<close>; \<open>SetNoDelay(true)\<close>
  on a connection gives an error or none.
\<close>

record net =
  ResolveTCPAddr :: "string \<Rightarrow> string + string"
  Dial :: "net_Dialer \<Rightarrow> string \<Rightarrow> string + conn \<times> bool"
  SetNoDelay :: "conn \<Rightarrow> string option"

definition tcpDialer ::
  "WsTransport \<Rightarrow> net \<Rightarrow> string \<Rightarrow> bool \<Rightarrow> (string + conn) \<times> effect list" where
  "tcpDialer c nw address tcpnodelay =
     (case ResolveTCPAddr nw address of
        Inl err \<Rightarrow> (Inl err, [])
      | Inr tcpAddr \<Rightarrow>
          (let dialer = \<lparr> Timeout = c_timeout c,
                          net_Dialer.KeepAlive = WsConfig.KeepAlive (c_config c) \<rparr>
           in case Dial nw dialer tcpAddr of
                Inl err \<Rightarrow> (Inl err, [DialTCP dialer tcpAddr])
              | Inr (cn, isTCP) \<Rightarrow>
                  if \<not> isTCP then
                    (Inl ''failed to convert net.Conn to *net.TCPConn'',
                     [DialTCP dialer tcpAddr, Close cn])
                  else if tcpnodelay then
                    (case SetNoDelay nw cn of
                       Some err \<Rightarrow> (Inl err, [DialTCP dialer tcpAddr, Close cn])
                     | None \<Rightarrow> (Inr cn, [DialTCP dialer tcpAddr]))
                  else (Inr cn, [DialTCP dialer tcpAddr])))"

text \<open>\<open>localDialer\<close>; \<open>int(port)\<close> of a \<open>uint16\<close> is \<open>uint port\<close>.\<close>

definition localAddress :: "WsTransport \<Rightarrow> 16 word \<Rightarrow> string" where
  "localAddress c port =
     (case WsConfig.Forwarder (c_config c) (uint port) of
        Some a \<Rightarrow> a
      | None \<Rightarrow> ''127.0.0.1:'' @ Itoa (uint port))"

definition localDialer ::
  "WsTransport \<Rightarrow> net \<Rightarrow> bool \<Rightarrow> conn \<Rightarrow> 16 word \<Rightarrow> effect list" where
  "localDialer c nw done tunnelConnection port =
     (if done then []
      else
        (case tcpDialer c nw (localAddress c port) (WsConfig.Nodelay (c_config c)) of
           (Inl err, es) \<Rightarrow>
             es @ [Log ErrorLevel ''connecting to local address %s is not possible'',
                   Close tunnelConnection]
         | (Inr localConnection, es) \<Rightarrow>
             es @ [Log DebugLevel ''connected to local address %s successfully'',
                   Go (go_WSToTCPConnHandler tunnelConnection localConnection
                         (c_usageMonitor c) (uint port) (WsConfig.Sniffing (c_config c)))]))"

text \<open>
  The states a client built by \<open>NewWSClient\<close> from the configuration \<open>cfg\<close> can be in:
  after any number of restarts (whole, or cut at the sleep) and control-channel dials.
\<close>

inductive ws_client :: "WsConfig \<Rightarrow> WsTransport \<Rightarrow> bool" for cfg :: WsConfig where
  ws_new: "ws_client cfg (NewWSClient ctx cfg)"
| ws_enter: "ws_client cfg c \<Longrightarrow> ws_client cfg (fst (WsTransport_Restart_enter c))"
| ws_resume: "ws_client cfg c \<Longrightarrow> ws_client cfg (fst (WsTransport_Restart_resume c fresh))"
| ws_dialed: "ws_client cfg c \<Longrightarrow> ws_client cfg (fst (ChannelDialer c obs))"

section \<open>internal/server/transport/tcpmux.go\<close>

record TcpMuxConfig =
  BindAddr :: string
  Nodelay :: bool
  KeepAlive :: duration
  Token :: string
  MuxSession :: int
  ChannelSize :: int
  Ports :: "string list"
  MuxVersion :: int
  MaxFrameSize :: int
  MaxReceiveBuffer :: int
  MaxStreamBuffer :: int
  Sniffing :: bool
  WebPort :: int
  SnifferLog :: string

text \<open>
  \<open>TcpMuxTransport\<close>; the field \<open>s.ctx\<close> is \<open>s_ctx s\<close>. The pool \<open>s.smuxSession\<close> is a list
  of slots, \<open>None\<close> for a nil session.
\<close>

record TcpMuxTransport =
  s_config :: TcpMuxConfig
  s_ctx :: scope
  s_cancel :: "scope option"
  s_smuxSession :: "session option list"
  s_restartMutex :: bool
  s_timeout :: duration
  s_usageMonitor :: usage

text \<open>\<open>make([]*smux.Session, n)\<close>: \<open>n\<close> nil slots, a panic (\<open>None\<close>) for a negative \<open>n\<close>.\<close>

definition make_sessions :: "int \<Rightarrow> session option list option" where
  "make_sessions n = (if n < 0 then None else Some (replicate (nat n) None))"

text \<open>
  \<open>NewTcpMuxServer\<close>; \<open>ctx\<close> is the scope that \<open>context.WithCancel(parentCtx)\<close> returns.
  \<open>None\<close> is the panic of \<open>make\<close>.
\<close>

definition NewTcpMuxServer :: "scope \<Rightarrow> TcpMuxConfig \<Rightarrow> TcpMuxTransport option" where
  "NewTcpMuxServer ctx config =
     (case make_sessions (TcpMuxConfig.MuxSession config) of
        None \<Rightarrow> None
      | Some pool \<Rightarrow>
          Some \<lparr> s_config = config,
                 s_ctx = ctx,
                 s_cancel = Some ctx,
                 s_smuxSession = pool,
                 s_restartMutex = False,
                 s_timeout = 2 * Second,
                 s_usageMonitor =
                   NewDataStore ('':'' @ Itoa (TcpMuxConfig.WebPort config)) ctx
                     (TcpMuxConfig.SnifferLog config) \<rparr>)"

text \<open>
  \<open>(s *TcpMuxTransport) Restart\<close>, cut at the \<open>time.Sleep\<close> like the client's:
  \<open>TcpMuxTransport_Restart_enter\<close> runs from \<open>TryLock\<close> to the sleep,
  \<open>TcpMuxTransport_Restart_resume\<close> from the end of the sleep to the deferred \<open>Unlock\<close>.
\<close>

definition TcpMuxTransport_Restart_enter ::
  "TcpMuxTransport \<Rightarrow> TcpMuxTransport \<times> effect list \<times> bool" where
  "TcpMuxTransport_Restart_enter s =
     (if s_restartMutex s then
        (s, [Log WarnLevel ''server restart already in progress, skipping restart attempt''], False)
      else (s\<lparr>s_restartMutex := True\<rparr>,
            [Log InfoLevel ''restarting server...''] @
            (case s_cancel s of None \<Rightarrow> [] | Some old \<Rightarrow> [CancelScope old]) @
            [Sleep (2 * Second)],
            True))"

definition TcpMuxTransport_Restart_resume ::
  "TcpMuxTransport \<Rightarrow> scope \<Rightarrow> TcpMuxTransport \<times> effect list" where
  "TcpMuxTransport_Restart_resume s fresh =
     (case make_sessions (TcpMuxConfig.MuxSession (s_config s)) of
        None \<Rightarrow>
          (s\<lparr>s_ctx := fresh, s_cancel := Some fresh, s_restartMutex := False\<rparr>,
           [Crash ''makeslice: len out of range''])
      | Some pool \<Rightarrow>
          (s\<lparr>s_ctx := fresh,
             s_cancel := Some fresh,
             s_smuxSession := pool,
             s_usageMonitor :=
               NewDataStore ('':'' @ Itoa (TcpMuxConfig.WebPort (s_config s))) fresh
                 (TcpMuxConfig.SnifferLog (s_config s)),
             s_restartMutex := False\<rparr>,
           [Go go_TunnelListener]))"

definition TcpMuxTransport_Restart ::
  "TcpMuxTransport \<Rightarrow> scope \<Rightarrow> TcpMuxTransport \<times> effect list" where
  "TcpMuxTransport_Restart s fresh =
     (case TcpMuxTransport_Restart_enter s of
        (s1, es1, False) \<Rightarrow> (s1, es1)
      | (s1, es1, True) \<Rightarrow>
          (case TcpMuxTransport_Restart_resume s1 fresh of (s2, es2) \<Rightarrow> (s2, es1 @ es2)))"

fun mux_restart_step :: "TcpMuxTransport \<times> nat \<Rightarrow> restart_event \<Rightarrow> TcpMuxTransport \<times> nat" where
  "mux_restart_step (s, n) RestartCall =
     (case TcpMuxTransport_Restart_enter s of
        (s1, es, entered) \<Rightarrow> (s1, if entered then n + 1 else n))"
| "mux_restart_step (s, n) (RestartWake fresh) =
     (if s_restartMutex s then (fst (TcpMuxTransport_Restart_resume s fresh), n - 1) else (s, n))"

definition mux_restart_run :: "TcpMuxTransport \<Rightarrow> restart_event list \<Rightarrow> TcpMuxTransport \<times> nat" where
  "mux_restart_run s evs = foldl mux_restart_step (s, 0) evs"

subsection \<open>The port-mapping pattern\<close>

text \<open>
  The pattern of \<open>portConfigReader\<close> is
  \<^verbatim>\<open>(?m)^(?:(?:\[(\d+):(\d+)\](?:=(\d+))?)|(?:(\d+)(?::(\d+))?(?:=(\d+))?))$\<close>.
  With the flag \<open>m\<close>, \<open>^\<close> matches at the start of the text and after a newline and \<open>$\<close>
  at the end of the text and before a newline; nothing between them matches a newline, so
  a match is one whole line of the text, and the leftmost match that
  \<open>FindStringSubmatch\<close> returns is the first line that matches. \<open>\d\<close> is an ASCII digit.
  A run \<open>\d+\<close> is followed in the pattern by a character that is no digit or by the end
  of the line, so it can only match the whole run of digits it starts in.

  \<open>match_remote\<close> is the tail \<^verbatim>\<open>(?:=(\d+))?$\<close> and returns its group (empty when the
  group takes no part); \<open>match_bracket\<close> and \<open>match_plain\<close> are the two alternatives and
  return the groups 1 to 6.
\<close>

definition match_remote :: "string \<Rightarrow> string option" where
  "match_remote str =
     (case str of
        [] \<Rightarrow> Some []
      | c # cs \<Rightarrow> if c = CHR ''='' \<and> digits cs then Some cs else None)"

definition match_bracket :: "string \<Rightarrow> string list option" where
  "match_bracket line =
     (case line of
        [] \<Rightarrow> None
      | c0 # r1 \<Rightarrow>
          if c0 \<noteq> CHR ''['' \<or> takeWhile is_digit r1 = [] then None
          else
            (case dropWhile is_digit r1 of
               [] \<Rightarrow> None
             | c1 # r2 \<Rightarrow>
                 if c1 \<noteq> CHR '':'' \<or> takeWhile is_digit r2 = [] then None
                 else
                   (case dropWhile is_digit r2 of
                      [] \<Rightarrow> None
                    | c2 # r3 \<Rightarrow>
                        if c2 \<noteq> CHR '']'' then None
                        else
                          (case match_remote r3 of
                             None \<Rightarrow> None
                           | Some g3 \<Rightarrow>
                               Some [takeWhile is_digit r1, takeWhile is_digit r2, g3,
                                     [], [], []]))))"

definition match_plain :: "string \<Rightarrow> string list option" where
  "match_plain line =
     (if takeWhile is_digit line = [] then None
      else
        (case dropWhile is_digit line of
           [] \<Rightarrow> Some [[], [], [], takeWhile is_digit line, [], []]
         | c1 # r2 \<Rightarrow>
             if c1 = CHR '':'' then
               (if takeWhile is_digit r2 = [] then None
                else
                  (case match_remote (dropWhile is_digit r2) of
                     None \<Rightarrow> None
                   | Some g6 \<Rightarrow>
                       Some [[], [], [], takeWhile is_digit line, takeWhile is_digit r2, g6]))
             else
               (case match_remote (c1 # r2) of
                  None \<Rightarrow> None
                | Some g6 \<Rightarrow> Some [[], [], [], takeWhile is_digit line, [], g6])))"

definition match_line :: "string \<Rightarrow> string list option" where
  "match_line line =
     (case match_bracket line of Some gs \<Rightarrow> Some gs | None \<Rightarrow> match_plain line)"

fun split_lines :: "string \<Rightarrow> string list" where
  "split_lines [] = [[]]"
| "split_lines (c # cs) =
     (if c = CHR 0x0A then [] # split_lines cs
      else (c # hd (split_lines cs)) # tl (split_lines cs))"

fun first_match :: "string list \<Rightarrow> string list option" where
  "first_match [] = None"
| "first_match (l # ls) =
     (case match_line l of Some gs \<Rightarrow> Some gs | None \<Rightarrow> first_match ls)"

text \<open>
  \<open>re.FindStringSubmatch\<close>, without the whole match at index 0 that the code skips
  (its loop starts at 1), and \<open>re.MatchString\<close>.
\<close>

definition FindStringSubmatch :: "string \<Rightarrow> string list option" where
  "FindStringSubmatch str = first_match (split_lines str)"

definition MatchString :: "string \<Rightarrow> bool" where
  "MatchString str = (FindStringSubmatch str \<noteq> None)"

subsection \<open>\<open>portConfigReader\<close>\<close>

definition validGroups :: "string list \<Rightarrow> int list" where
  "validGroups groups = map Atoi (filter (\<lambda>g. g \<noteq> []) groups)"

text \<open>
  The loop \<open>for i := startRange; i <= endRange; i++\<close> with the \<open>go s.localListener\<close> of
  its body; \<open>i++\<close> on the largest \<open>int\<close> wraps to the smallest. \<open>None\<close> is a loop that never
  ends.
\<close>

partial_function (option) rangeLoop :: "int \<Rightarrow> int \<Rightarrow> int \<Rightarrow> effect list \<Rightarrow> effect list option" where
  "rangeLoop i endRange remotePort spawned =
     (if i \<le> endRange then
        rangeLoop (if i = maxInt then minInt else i + 1) endRange remotePort
          (spawned @ [Go (go_localListener ('':'' @ Itoa i) (if remotePort = - 1 then i else remotePort))])
      else Some spawned)"

declare rangeLoop.simps [code]

text \<open>
  The body of the loop over \<open>s.config.Ports\<close>, for one entry. The result is what the
  entry does and whether the process is still running after it: \<open>logger.Fatalf\<close> ends it.
  \<open>None\<close> is an entry whose range loop never ends.
\<close>

definition portMapping :: "string \<Rightarrow> (effect list \<times> bool) option" where
  "portMapping pm =
     (case FindStringSubmatch pm of
        None \<Rightarrow> Some ([Log FatalLevel ''invalid port mapping: %s'', Exit], False)
      | Some groups \<Rightarrow>
          (case validGroups groups of
             [] \<Rightarrow> Some ([Crash ''index out of range''], False)
           | startRange # others \<Rightarrow>
               (let vg = startRange # others;
                    hasRemote = (CHR ''='' \<in> set pm);
                    remotePort = (if hasRemote then last vg else - 1);
                    endRange =
                      (if hasRemote then (if length vg = 3 then vg ! 1 else startRange)
                       else (if length vg = 2 then vg ! 1 else startRange))
                in if startRange > endRange then
                     Some ([Log FatalLevel ''Invalid range: %d %d'', Exit], False)
                   else
                     (case rangeLoop startRange endRange remotePort [] of
                        None \<Rightarrow> None
                      | Some es \<Rightarrow> Some (es, True)))))"

fun portMappings :: "string list \<Rightarrow> (effect list \<times> bool) option" where
  "portMappings [] = Some ([], True)"
| "portMappings (pm # rest) =
     (case portMapping pm of
        None \<Rightarrow> None
      | Some (es, False) \<Rightarrow> Some (es, False)
      | Some (es, True) \<Rightarrow>
          (case portMappings rest of
             None \<Rightarrow> None
           | Some (es', running) \<Rightarrow> Some (es @ es', running)))"

definition portConfigReader :: "TcpMuxTransport \<Rightarrow> (effect list \<times> bool) option" where
  "portConfigReader s = portMappings (TcpMuxConfig.Ports (s_config s))"

subsection \<open>The grammar of the specification\<close>

text \<open>
  The port-mapping grammar as the specification gives it, \<^verbatim>\<open>^\[d+:d+\](=d+)?$\<close> or
  \<^verbatim>\<open>^d+(:d+)?(=d+)?$\<close>: an entry is a bracketed range with an optional remote port, or
  a port with an optional range end and an optional remote port, every part a non-empty
  run of digits. \<open>spec_render\<close> is the string of an entry. The tuple
  \<open>(localStart, localEnd, remotePort?)\<close> that the entry parses to holds its integers as
  \<open>strconv.Atoi\<close> reads them.
\<close>

datatype spec_entry =
    Bracket string string "string option"
  | Plain string "string option" "string option"

fun spec_render :: "spec_entry \<Rightarrow> string" where
  "spec_render (Bracket a b None) = ''['' @ a @ '':'' @ b @ '']''"
| "spec_render (Bracket a b (Some c)) = ''['' @ a @ '':'' @ b @ '']='' @ c"
| "spec_render (Plain a None None) = a"
| "spec_render (Plain a (Some b) None) = a @ '':'' @ b"
| "spec_render (Plain a None (Some c)) = a @ ''='' @ c"
| "spec_render (Plain a (Some b) (Some c)) = a @ '':'' @ b @ ''='' @ c"

fun spec_wf :: "spec_entry \<Rightarrow> bool" where
  "spec_wf (Bracket a b c) = (digits a \<and> digits b \<and> (case c of None \<Rightarrow> True | Some r \<Rightarrow> digits r))"
| "spec_wf (Plain a b c) =
     (digits a \<and> (case b of None \<Rightarrow> True | Some e \<Rightarrow> digits e)
      \<and> (case c of None \<Rightarrow> True | Some r \<Rightarrow> digits r))"

fun spec_localStart :: "spec_entry \<Rightarrow> int" where
  "spec_localStart (Bracket a b c) = Atoi a"
| "spec_localStart (Plain a b c) = Atoi a"

fun spec_localEnd :: "spec_entry \<Rightarrow> int" where
  "spec_localEnd (Bracket a b c) = Atoi b"
| "spec_localEnd (Plain a None c) = Atoi a"
| "spec_localEnd (Plain a (Some b) c) = Atoi b"

fun spec_remotePort :: "spec_entry \<Rightarrow> int option" where
  "spec_remotePort (Bracket a b c) = map_option Atoi c"
| "spec_remotePort (Plain a b c) = map_option Atoi c"

text \<open>
  The listeners of the specification for an entry: one per local port \<open>p\<close> of the range,
  on the address \<open>":p"\<close>, forwarding to the remote port if there is one and to \<open>p\<close> if not.
\<close>

definition spec_listeners :: "spec_entry \<Rightarrow> effect list" where
  "spec_listeners m =
     map (\<lambda>p. Go (go_localListener ('':'' @ Itoa p)
                  (case spec_remotePort m of None \<Rightarrow> p | Some r \<Rightarrow> r)))
       [spec_localStart m .. spec_localEnd m]"

text \<open>
  The six capture groups of the pattern on the string of an entry, the whole match left
  out: the first three belong to the bracketed alternative, the last three to the plain
  one, and a group that takes no part is empty.
\<close>

definition spec_groups :: "spec_entry \<Rightarrow> string list" where
  "spec_groups m =
     (case m of
        Bracket a b c \<Rightarrow> [a, b, (case c of None \<Rightarrow> [] | Some r \<Rightarrow> r), [], [], []]
      | Plain a b c \<Rightarrow>
          [[], [], [], a, (case b of None \<Rightarrow> [] | Some e \<Rightarrow> e),
           (case c of None \<Rightarrow> [] | Some r \<Rightarrow> r)])"

subsection \<open>\<open>acceptStreamConn\<close> and \<open>TunnelListener\<close>\<close>

text \<open>
  What one round of the accept loop gets from the world, call by call in the order of the
  code; a call that the round does not reach is not looked at.
\<close>

record attempt =
  at_Accept :: "string + conn"
  at_isTCP :: bool
  at_SetNoDelay :: "string option"
  at_smux :: "string option"
  at_AcceptStream :: "string + stream"
  at_ReceiveBinaryString :: "string + string"
  at_SendBinaryString :: "string option"

definition smuxConfig :: "TcpMuxTransport \<Rightarrow> smux_Config" where
  "smuxConfig s =
     \<lparr> Version = TcpMuxConfig.MuxVersion (s_config s),
       KeepAliveInterval = 10 * Second,
       KeepAliveTimeout = 30 * Second,
       smux_Config.MaxFrameSize = TcpMuxConfig.MaxFrameSize (s_config s),
       smux_Config.MaxReceiveBuffer = TcpMuxConfig.MaxReceiveBuffer (s_config s),
       smux_Config.MaxStreamBuffer = TcpMuxConfig.MaxStreamBuffer (s_config s) \<rparr>"

text \<open>The session that the call \<open>smux.Client(conn, &config)\<close> of the accept loop makes.\<close>

definition acceptedSession :: "TcpMuxTransport \<Rightarrow> conn \<Rightarrow> session" where
  "acceptedSession s cn = \<lparr> sess_conn = cn, sess_role = SmuxClient, sess_config = smuxConfig s \<rparr>"

definition nodelayLog :: "TcpMuxTransport \<Rightarrow> string option \<Rightarrow> effect list" where
  "nodelayLog s err =
     (if TcpMuxConfig.Nodelay (s_config s) then
        (case err of
           Some e \<Rightarrow> [Log WarnLevel ''failed to set TCP_NODELAY for %s: %v'']
         | None \<Rightarrow> [Log TraceLevel ''TCP_NODELAY enabled for %s''])
      else [])"

text \<open>
  How a round of the accept loop ends: with \<open>continue\<close> (or the end of the body), with the
  session installed and the goroutine parked on \<open><-s.ctx.Done()\<close>, or with \<open>return\<close>.
\<close>

datatype round_end = Continue | Established | Stopped

text \<open>
  One round of the \<open>for\<close> loop of \<open>acceptStreamConn\<close>, for the goroutine with index \<open>id\<close>:
  \<open>done\<close> is the scope's state at the \<open>select\<close>.
\<close>

definition acceptRound ::
  "TcpMuxTransport \<Rightarrow> nat \<Rightarrow> bool \<Rightarrow> attempt \<Rightarrow> TcpMuxTransport \<times> effect list \<times> round_end" where
  "acceptRound s idx done a =
     (if done then (s, [], Stopped)
      else
        (case at_Accept a of
           Inl err \<Rightarrow>
             (s, [Log DebugLevel ''waiting for accept incoming tunnel connection on %s'',
                  Log DebugLevel ''failed to accept tunnel connection on %s: %v''], Continue)
         | Inr cn \<Rightarrow>
             if \<not> at_isTCP a then
               (s, [Log DebugLevel ''waiting for accept incoming tunnel connection on %s'',
                    Log WarnLevel ''disarded non-TCP tunnel connection from %s'',
                    Close cn], Continue)
             else
               (let pre = Log DebugLevel ''waiting for accept incoming tunnel connection on %s''
                          # nodelayLog s (at_SetNoDelay a);
                    sess = acceptedSession s cn
                in case at_smux a of
                     Some err \<Rightarrow>
                       (s, pre @ [Log ErrorLevel ''failed to create SMUX session for connection %s: %v'',
                                  Close cn], Continue)
                   | None \<Rightarrow>
                       (case at_AcceptStream a of
                          Inl err \<Rightarrow>
                            (s, pre @ [Log ErrorLevel ''failed to accept mux stream for authentication from session %v: %v'',
                                       CloseSession sess], Continue)
                        | Inr strm \<Rightarrow>
                            (case at_ReceiveBinaryString a of
                               Inl err \<Rightarrow>
                                 (s, pre @ [Log ErrorLevel ''failed to receive token from stream %v: %v'',
                                            CloseSession sess], Continue)
                             | Inr token \<Rightarrow>
                                 if token = TcpMuxConfig.Token (s_config s) then
                                   (case at_SendBinaryString a of
                                      Some err \<Rightarrow>
                                        (s, pre @ [SendBinaryString strm ''ok'',
                                                   Log ErrorLevel ''failed to send acknowledgment for token to stream %v: %v'',
                                                   CloseSession sess], Continue)
                                    | None \<Rightarrow>
                                        if idx < length (s_smuxSession s) then
                                          (s\<lparr>s_smuxSession := (s_smuxSession s)[idx := Some sess]\<rparr>,
                                           pre @ [SendBinaryString strm ''ok'',
                                                  Log InfoLevel ''successfully established SMUX session with ID %d for connection %s'',
                                                  WgDone], Established)
                                        else
                                          (s, pre @ [SendBinaryString strm ''ok'',
                                                     Crash ''index out of range''], Stopped))
                                 else
                                   (s, pre @ [SendBinaryString strm ''error''] @
                                       (case at_SendBinaryString a of
                                          Some err \<Rightarrow> [Log ErrorLevel ''failed to send error response to stream %v: %v'']
                                        | None \<Rightarrow> []) @
                                       [Log ErrorLevel ''failed to establish a new session. Token mismatch: received %s, expected %s'',
                                        CloseSession sess,
                                        Sleep (2 * Second)], Continue))))))"

text \<open>
  The rounds that install a session: the scope is live, every call succeeds, the token
  received is the configured one and the slot exists.
\<close>

definition installs :: "TcpMuxTransport \<Rightarrow> nat \<Rightarrow> bool \<Rightarrow> attempt \<Rightarrow> bool" where
  "installs s idx done a =
     (\<not> done \<and> \<not> isl (at_Accept a) \<and> at_isTCP a \<and> at_smux a = None
      \<and> \<not> isl (at_AcceptStream a)
      \<and> at_ReceiveBinaryString a = Inr (TcpMuxConfig.Token (s_config s))
      \<and> at_SendBinaryString a = None \<and> idx < length (s_smuxSession s))"

text \<open>
  The loop of one goroutine: a round that ends with \<open>continue\<close> is followed by the next
  round. A run that uses up the observations is blocked in \<open>listener.Accept()\<close>.
\<close>

datatype accept_status = Accepting | Serving | Gone

fun acceptStreamConn ::
  "TcpMuxTransport \<Rightarrow> nat \<Rightarrow> (bool \<times> attempt) list \<Rightarrow> TcpMuxTransport \<times> effect list \<times> accept_status" where
  "acceptStreamConn s idx [] = (s, [], Accepting)"
| "acceptStreamConn s idx ((done, a) # rest) =
     (case acceptRound s idx done a of
        (s', es, Continue) \<Rightarrow>
          (case acceptStreamConn s' idx rest of (s'', es', st) \<Rightarrow> (s'', es @ es', st))
      | (s', es, Established) \<Rightarrow> (s', es, Serving)
      | (s', es, Stopped) \<Rightarrow> (s', es, Gone))"

text \<open>
  \<open>TunnelListener\<close> with the \<open>MuxSession\<close> goroutines it starts. They share the listener
  and the pool; \<open>su_wg\<close> is the counter of the wait group and \<open>su_loops\<close> the state of each
  goroutine. A schedule is the sequence of rounds in the order in which they happen:
  \<open>(id, done, a)\<close> is a round of the goroutine \<open>id\<close>. A round of a goroutine that is not
  in its accept loop cannot happen and changes nothing.
\<close>

record tunnel_setup =
  su_server :: TcpMuxTransport
  su_wg :: nat
  su_loops :: "accept_status list"
  su_effects :: "effect list"

definition setup_round :: "tunnel_setup \<Rightarrow> nat \<times> bool \<times> attempt \<Rightarrow> tunnel_setup" where
  "setup_round st ev =
     (case ev of
        (idx, done, a) \<Rightarrow>
          if idx < length (su_loops st) \<and> su_loops st ! idx = Accepting then
            (case acceptRound (su_server st) idx done a of
               (s', es, r) \<Rightarrow>
                 \<lparr> su_server = s',
                   su_wg = (if r = Established then su_wg st - 1 else su_wg st),
                   su_loops = (su_loops st)
                     [idx := (case r of Continue \<Rightarrow> Accepting | Established \<Rightarrow> Serving | Stopped \<Rightarrow> Gone)],
                   su_effects = su_effects st @ es \<rparr>)
          else st)"

definition setup_start :: "TcpMuxTransport \<Rightarrow> tunnel_setup" where
  "setup_start s =
     \<lparr> su_server = s,
       su_wg = nat (TcpMuxConfig.MuxSession (s_config s)),
       su_loops = replicate (nat (TcpMuxConfig.MuxSession (s_config s))) Accepting,
       su_effects =
         Log InfoLevel ''server started successfully, listening on address: %s'' #
         map (\<lambda>idx. Go (go_acceptStreamConn idx)) [0 ..< nat (TcpMuxConfig.MuxSession (s_config s))] \<rparr>"

text \<open>
  \<open>TunnelListener\<close>: \<open>listen\<close> is the error of \<open>net.Listen\<close>, if any. The second component
  says whether \<open>wg.Wait()\<close> has returned, that is whether the set-up is over; the
  goroutines of the last lines are started then.
\<close>

definition TunnelListener ::
  "TcpMuxTransport \<Rightarrow> string option \<Rightarrow> (nat \<times> bool \<times> attempt) list \<Rightarrow> tunnel_setup \<times> bool" where
  "TunnelListener s listen schedule =
     (case listen of
        Some err \<Rightarrow>
          (\<lparr> su_server = s, su_wg = 0, su_loops = [],
             su_effects = [Log FatalLevel ''failed to start listener on %s: %v'', Exit] \<rparr>, False)
      | None \<Rightarrow>
          (let st = foldl setup_round (setup_start s) schedule
           in if su_wg st = 0 then
                (st\<lparr>su_effects := su_effects st @ [Go go_portConfigReader] @
                     (if TcpMuxConfig.Sniffing (s_config s)
                      then [Go (go_Monitor (s_usageMonitor (su_server st)))] else [])\<rparr>, True)
              else (st, False)))"

text \<open>
  The accept loops in time. \<open>time.Sleep\<close> holds up the goroutine that calls it and no
  other, and the goroutines share the listener. \<open>slept\<close> is the time a round spends in
  \<open>time.Sleep\<close>; the other calls are taken to need no time. \<open>al_awake ! id\<close> is the time
  from which the goroutine \<open>id\<close> is out of its last round; \<open>(t, id, done, a)\<close> is a round
  that the goroutine \<open>id\<close> starts at the time \<open>t\<close>, which it can do only when it is in its
  loop and out of its last round; \<open>al_rounds\<close> lists the rounds that took place, each
  with its time, its goroutine and its effects.
\<close>

definition slept :: "effect list \<Rightarrow> duration" where
  "slept es = sum_list (map (\<lambda>e. case e of Sleep d \<Rightarrow> d | _ \<Rightarrow> 0) es)"

record accept_loops =
  al_server :: TcpMuxTransport
  al_loops :: "accept_status list"
  al_awake :: "duration list"
  al_rounds :: "(duration \<times> nat \<times> effect list) list"

definition loops_round :: "accept_loops \<Rightarrow> duration \<times> nat \<times> bool \<times> attempt \<Rightarrow> accept_loops" where
  "loops_round st ev =
     (case ev of
        (t, idx, done, a) \<Rightarrow>
          if idx < length (al_loops st) \<and> al_loops st ! idx = Accepting \<and> al_awake st ! idx \<le> t then
            (case acceptRound (al_server st) idx done a of
               (s', es, r) \<Rightarrow>
                 \<lparr> al_server = s',
                   al_loops = (al_loops st)
                     [idx := (case r of Continue \<Rightarrow> Accepting | Established \<Rightarrow> Serving | Stopped \<Rightarrow> Gone)],
                   al_awake = (al_awake st)[idx := t + slept es],
                   al_rounds = al_rounds st @ [(t, idx, es)] \<rparr>)
          else st)"

definition loops_start :: "TcpMuxTransport \<Rightarrow> accept_loops" where
  "loops_start s =
     \<lparr> al_server = s,
       al_loops = replicate (nat (TcpMuxConfig.MuxSession (s_config s))) Accepting,
       al_awake = replicate (nat (TcpMuxConfig.MuxSession (s_config s))) 0,
       al_rounds = [] \<rparr>"

subsection \<open>\<open>localListener\<close> and its accept queue\<close>

text \<open>
  The accept queue is the buffered channel \<open>acceptChan\<close>. \<open>l_chan\<close> is its buffer, oldest
  first, and \<open>l_cap\<close> its capacity; \<open>l_pending\<close> is the connection that the accepting
  goroutine is trying to send while it is blocked in the \<open>select\<close>; \<open>l_received\<close> lists
  what the dispatcher has taken from the channel; \<open>l_accepting\<close> says whether the
  accepting goroutine is still in its loop.
\<close>

record listener =
  l_chan :: "conn list"
  l_cap :: nat
  l_pending :: "conn option"
  l_received :: "conn list"
  l_accepting :: bool
  l_effects :: "effect list"

text \<open>
  What happens around the channel: \<open>Arrive done accepted isTCP nodelay\<close> is a round of the
  accepting loop (the scope's state, the outcome of \<open>listener.Accept()\<close>, of the type
  assertion and of \<open>SetNoDelay\<close>); \<open>Receive\<close> is the dispatcher taking a connection from
  the channel; \<open>TimerFires\<close> is the timer \<open>time.After(s.timeout)\<close> of the pending
  \<open>select\<close> running out.
\<close>

datatype queue_event =
    Arrive bool "string + conn" bool "string option"
  | Receive
  | TimerFires

text \<open>
  The \<open>select\<close> of the accepting loop: the timer is made on entry and cannot have run out
  then, so the send is taken at once when the buffer has room; otherwise the goroutine
  stays in the \<open>select\<close> until the dispatcher receives or the timer runs out.
\<close>

definition offer :: "TcpMuxTransport \<Rightarrow> listener \<Rightarrow> conn \<Rightarrow> effect list \<Rightarrow> listener" where
  "offer s l tcpConn pre =
     (if length (l_chan l) < l_cap l then
        l\<lparr>l_chan := l_chan l @ [tcpConn],
          l_effects := l_effects l @ pre @
            [After (s_timeout s), Log DebugLevel ''accepted incoming TCP connection from %s'']\<rparr>
      else
        l\<lparr>l_pending := Some tcpConn,
          l_effects := l_effects l @ pre @ [After (s_timeout s)]\<rparr>)"

fun queue_step :: "TcpMuxTransport \<Rightarrow> listener \<Rightarrow> queue_event \<Rightarrow> listener" where
  "queue_step s l (Arrive done accepted isTCP nodelay) =
     (if \<not> l_accepting l \<or> l_pending l \<noteq> None then l
      else if done then l\<lparr>l_accepting := False\<rparr>
      else
        (case accepted of
           Inl err \<Rightarrow>
             l\<lparr>l_effects := l_effects l @
                 [Log DebugLevel ''waiting to accept incoming connection on %s'',
                  Log DebugLevel ''failed to accept connection on %s: %v'']\<rparr>
         | Inr cn \<Rightarrow>
             if \<not> isTCP then
               l\<lparr>l_effects := l_effects l @
                   [Log DebugLevel ''waiting to accept incoming connection on %s'',
                    Log WarnLevel ''disarded non-TCP connection from %s'',
                    Close cn]\<rparr>
             else
               offer s l cn
                 (Log DebugLevel ''waiting to accept incoming connection on %s'' #
                  nodelayLog s nodelay @
                  [SetKeepAlive cn True,
                   SetKeepAlivePeriod cn (TcpMuxConfig.KeepAlive (s_config s))])))"
| "queue_step s l Receive =
     (case l_chan l of
        [] \<Rightarrow>
          (case l_pending l of
             None \<Rightarrow> l
           | Some cn \<Rightarrow>
               l\<lparr>l_pending := None,
                 l_received := l_received l @ [cn],
                 l_effects := l_effects l @
                   [Log DebugLevel ''accepted incoming TCP connection from %s'']\<rparr>)
      | oldest # queued \<Rightarrow>
          (case l_pending l of
             None \<Rightarrow> l\<lparr>l_chan := queued, l_received := l_received l @ [oldest]\<rparr>
           | Some cn \<Rightarrow>
               l\<lparr>l_chan := queued @ [cn],
                 l_pending := None,
                 l_received := l_received l @ [oldest],
                 l_effects := l_effects l @
                   [Log DebugLevel ''accepted incoming TCP connection from %s'']\<rparr>))"
| "queue_step s l TimerFires =
     (case l_pending l of
        None \<Rightarrow> l
      | Some cn \<Rightarrow>
          l\<lparr>l_pending := None,
            l_effects := l_effects l @
              [Log WarnLevel ''channel with listener %s is full, discarding TCP connection from %s'',
               Close cn]\<rparr>)"

text \<open>
  \<open>localListener\<close>: \<open>listen\<close> is the error of \<open>net.Listen\<close>, if any;
  \<open>make(chan net.Conn, n)\<close> panics for a negative \<open>n\<close>. The result is \<open>None\<close> when the
  function ends before it has a channel.
\<close>

definition localListener_start :: "TcpMuxTransport \<Rightarrow> int \<Rightarrow> listener" where
  "localListener_start s remotePort =
     \<lparr> l_chan = [],
       l_cap = nat (TcpMuxConfig.ChannelSize (s_config s)),
       l_pending = None,
       l_received = [],
       l_accepting = True,
       l_effects =
         [Log DebugLevel ''starting listener on local port %s -> remote port %d'',
          Log InfoLevel ''listener started successfully, listening on address: %s'',
          Go (go_handleMUXSession remotePort)] \<rparr>"

definition localListener ::
  "TcpMuxTransport \<Rightarrow> string \<Rightarrow> int \<Rightarrow> string option \<Rightarrow> queue_event list \<Rightarrow> effect list + listener" where
  "localListener s localAddr remotePort listen evs =
     (case listen of
        Some err \<Rightarrow>
          Inl [Log DebugLevel ''starting listener on local port %s -> remote port %d'',
               Log FatalLevel ''failed to start listener on %s: %v'', Exit]
      | None \<Rightarrow>
          if TcpMuxConfig.ChannelSize (s_config s) < 0 then
            Inl [Log DebugLevel ''starting listener on local port %s -> remote port %d'',
                 Log InfoLevel ''listener started successfully, listening on address: %s'',
                 Crash ''makechan: size out of range'']
          else Inr (foldl (queue_step s) (localListener_start s remotePort) evs))"

text \<open>
  The connections that reach the \<open>select\<close> of the accepting loop, in the order of their
  arrival: those of the rounds with a live scope, a successful \<open>Accept\<close> and a TCP
  connection.
\<close>

definition arrived :: "queue_event \<Rightarrow> conn list" where
  "arrived ev =
     (case ev of
        Arrive done accepted isTCP nodelay \<Rightarrow>
          (case accepted of
             Inl err \<Rightarrow> []
           | Inr cn \<Rightarrow> if \<not> done \<and> isTCP then [cn] else [])
      | Receive \<Rightarrow> []
      | TimerFires \<Rightarrow> [])"

definition arrivals :: "queue_event list \<Rightarrow> conn list" where
  "arrivals evs = concat (map arrived evs)"

definition pending_list :: "listener \<Rightarrow> conn list" where
  "pending_list l = (case l_pending l of None \<Rightarrow> [] | Some cn \<Rightarrow> [cn])"

subsection \<open>\<open>handleMUXSession\<close>\<close>

text \<open>
  What the dispatcher gets from the world for one connection taken from the channel:
  the connection, the function \<open>rand.Intn\<close> as it answers this call, whether the selected
  session is closed, the outcome of \<open>OpenStream\<close>, the error of \<open>utils.SendBinaryInt\<close> if
  any, and the local port of the connection.
\<close>

record dispatch =
  d_incomingConn :: conn
  d_Intn :: "int \<Rightarrow> int"
  d_IsClosed :: bool
  d_OpenStream :: "string + stream"
  d_SendBinaryInt :: "string option"
  d_LocalPort :: int

definition discardAndRestart :: "string \<Rightarrow> conn \<Rightarrow> effect list" where
  "discardAndRestart msg incomingConn =
     [Log ErrorLevel msg, Close incomingConn,
      Log InfoLevel ''attempting to restart server...'', Go go_Restart]"

text \<open>
  The body of the first \<open>case\<close> of the \<open>select\<close>; the second component says whether the
  loop goes on. \<open>rand.Intn(n)\<close> panics for \<open>n \<le> 0\<close>; \<open>uint16(remotePort)\<close> keeps the low
  16 bits.
\<close>

definition dispatchConn :: "TcpMuxTransport \<Rightarrow> int \<Rightarrow> dispatch \<Rightarrow> effect list \<times> bool" where
  "dispatchConn s remotePort d =
     (if TcpMuxConfig.MuxSession (s_config s) \<le> 0 then
        ([Crash ''invalid argument to Intn''], False)
      else
        (let idx = d_Intn d (TcpMuxConfig.MuxSession (s_config s))
         in if idx < 0 \<or> int (length (s_smuxSession s)) \<le> idx then
              ([Crash ''index out of range''], False)
            else
              (case s_smuxSession s ! nat idx of
                 None \<Rightarrow>
                   (discardAndRestart
                      ''MUX session with ID %d is closed or nil. Discarding incoming connection from %s.''
                      (d_incomingConn d), False)
               | Some sess \<Rightarrow>
                   if d_IsClosed d then
                     (discardAndRestart
                        ''MUX session with ID %d is closed or nil. Discarding incoming connection from %s.''
                        (d_incomingConn d), False)
                   else
                     (case d_OpenStream d of
                        Inl err \<Rightarrow>
                          (OpenStream sess #
                           discardAndRestart
                             ''failed to open a new mux stream for session ID %d: %v''
                             (d_incomingConn d), False)
                      | Inr strm \<Rightarrow>
                          (case d_SendBinaryInt d of
                             Some err \<Rightarrow>
                               ([OpenStream sess,
                                 SendBinaryInt strm (word_of_int remotePort),
                                 Log WarnLevel ''Failed to send port %d over stream for session ID %d: %v'',
                                 Close (d_incomingConn d)], True)
                           | None \<Rightarrow>
                               ([OpenStream sess,
                                 SendBinaryInt strm (word_of_int remotePort),
                                 Go (go_ConnectionHandler strm (d_incomingConn d)
                                       (s_usageMonitor s) (d_LocalPort d)
                                       (TcpMuxConfig.Sniffing (s_config s)))], True))))))"

text \<open>
  The loop: an event is the scope being done (\<open>None\<close>) or a connection from the channel.
  A run that uses up the events is blocked in the \<open>select\<close>.
\<close>

fun handleMUXSession ::
  "TcpMuxTransport \<Rightarrow> int \<Rightarrow> dispatch option list \<Rightarrow> effect list \<times> status" where
  "handleMUXSession s remotePort [] = ([], Running)"
| "handleMUXSession s remotePort (None # rest) = ([], Returned)"
| "handleMUXSession s remotePort (Some d # rest) =
     (case dispatchConn s remotePort d of
        (es, False) \<Rightarrow> (es, Returned)
      | (es, True) \<Rightarrow>
          (case handleMUXSession s remotePort rest of (es', st) \<Rightarrow> (es @ es', st)))"


text \<open>
  The states a server built by \<open>NewTcpMuxServer\<close> from the configuration \<open>cfg\<close> can be in:
  after any number of restarts (whole, or cut at the sleep) and accept rounds.
\<close>

inductive mux_server :: "TcpMuxConfig \<Rightarrow> TcpMuxTransport \<Rightarrow> bool" for cfg :: TcpMuxConfig where
  mux_new: "NewTcpMuxServer ctx cfg = Some s \<Longrightarrow> mux_server cfg s"
| mux_enter: "mux_server cfg s \<Longrightarrow> mux_server cfg (fst (TcpMuxTransport_Restart_enter s))"
| mux_resume: "mux_server cfg s \<Longrightarrow> mux_server cfg (fst (TcpMuxTransport_Restart_resume s fresh))"
| mux_round: "mux_server cfg s \<Longrightarrow> mux_server cfg (fst (acceptRound s idx done a))"

text \<open>
  What holds of the set-up after the rounds of \<open>schedule\<close>, for the configuration \<open>cfg\<close>
  and the session configuration \<open>sc\<close>: the wait-group counter is the number of
  goroutines that have not installed a session, the calls of \<open>wg.Done\<close> are as many as
  those that have, and the slot of each of these holds the session of a round of the
  schedule in which the configured token was received and acknowledged.
\<close>

definition setup_inv ::
  "TcpMuxConfig \<Rightarrow> smux_Config \<Rightarrow> (nat \<times> bool \<times> attempt) list \<Rightarrow> tunnel_setup \<Rightarrow> bool" where
  "setup_inv cfg sc schedule st =
     (s_config (su_server st) = cfg
      \<and> length (su_loops st) = nat (TcpMuxConfig.MuxSession cfg)
      \<and> length (s_smuxSession (su_server st)) = nat (TcpMuxConfig.MuxSession cfg)
      \<and> su_wg st = length (filter (\<lambda>x. x \<noteq> Serving) (su_loops st))
      \<and> count_list (su_effects st) WgDone = length (filter (\<lambda>x. x = Serving) (su_loops st))
      \<and> (\<forall>i < nat (TcpMuxConfig.MuxSession cfg). su_loops st ! i = Serving \<longrightarrow>
            (\<exists>a cn. (i, False, a) \<in> set schedule \<and> at_Accept a = Inr cn
               \<and> at_ReceiveBinaryString a = Inr (TcpMuxConfig.Token cfg)
               \<and> at_SendBinaryString a = None
               \<and> s_smuxSession (su_server st) ! i =
                   Some \<lparr> sess_conn = cn, sess_role = SmuxClient, sess_config = sc \<rparr>)))"


subsection \<open>The start-up of the local listeners\<close>











section \<open>Concrete configurations\<close>

text \<open>
  The client of the first end-to-end scenario of the specification, and a network on
  which every address resolves to itself and every dial is refused.
\<close>

definition scenario_WsConfig :: WsConfig where
  "scenario_WsConfig =
     \<lparr> RemoteAddr = ''127.0.0.1:3080'', WsConfig.Nodelay = False, WsConfig.KeepAlive = 20 * Second,
       RetryInterval = 1 * Second, WsConfig.Token = ''sahmadiut'',
       Forwarder = [8080 \<mapsto> ''127.0.0.1:22''], WsConfig.Sniffing = False,
       WsConfig.WebPort = 0, WsConfig.SnifferLog = ''backhaul.json'' \<rparr>"

definition refusing_net :: net where
  "refusing_net =
     \<lparr> ResolveTCPAddr = (\<lambda>address. Inr address),
       Dial = (\<lambda>dialer address. Inl ''connection refused''),
       SetNoDelay = (\<lambda>cn. None) \<rparr>"

text \<open>
  The server of the second and third scenarios: two mux sessions, the port range
  \<open>[9000:9002]=22\<close>; \<open>scenario_server\<close> is what \<open>NewTcpMuxServer\<close> makes of it.
\<close>

definition scenario_TcpMuxConfig :: TcpMuxConfig where
  "scenario_TcpMuxConfig =
     \<lparr> BindAddr = '':3080'', TcpMuxConfig.Nodelay = False, TcpMuxConfig.KeepAlive = 20 * Second,
       TcpMuxConfig.Token = ''sahmadiut'', MuxSession = 2, ChannelSize = 2,
       Ports = [''[9000:9002]=22''], MuxVersion = 1, TcpMuxConfig.MaxFrameSize = 32768,
       TcpMuxConfig.MaxReceiveBuffer = 4194304, TcpMuxConfig.MaxStreamBuffer = 65536,
       TcpMuxConfig.Sniffing = False, TcpMuxConfig.WebPort = 0,
       TcpMuxConfig.SnifferLog = ''backhaul.json'' \<rparr>"

definition scenario_server :: TcpMuxTransport where
  "scenario_server =
     \<lparr> s_config = scenario_TcpMuxConfig, s_ctx = 0, s_cancel = Some 0,
       s_smuxSession = [None, None], s_restartMutex = False, s_timeout = 2 * Second,
       s_usageMonitor = NewDataStore '':0'' 0 ''backhaul.json'' \<rparr>"

text \<open>
  A round of the accept loop in which every call succeeds and the peer sends \<open>token\<close>,
  and a schedule for the two accept loops of the scenario server: a peer with the token
  \<open>"wrong"\<close> (the fourth scenario) is served by the loop 0, then two peers with the
  configured token are served by the loops 1 and 0.
\<close>

definition scenario_attempt :: "conn \<Rightarrow> string \<Rightarrow> attempt" where
  "scenario_attempt cn token =
     \<lparr> at_Accept = Inr cn, at_isTCP = True, at_SetNoDelay = None, at_smux = None,
       at_AcceptStream = Inr cn, at_ReceiveBinaryString = Inr token,
       at_SendBinaryString = None \<rparr>"


definition scenario_schedule :: "(nat \<times> bool \<times> attempt) list" where
  "scenario_schedule =
     [(0, False, scenario_attempt 5 ''wrong''),
      (1, False, scenario_attempt 6 ''sahmadiut''),
      (0, False, scenario_attempt 7 ''sahmadiut'')]"

text \<open>
  A connection for the dispatcher: \<open>rand.Intn\<close> answers \<open>slot\<close>, the selected session is
  not closed, \<open>OpenStream\<close> and \<open>utils.SendBinaryInt\<close> end as given.
\<close>

definition scenario_dispatch :: "int \<Rightarrow> string + stream \<Rightarrow> string option \<Rightarrow> dispatch" where
  "scenario_dispatch slot opened sent =
     \<lparr> d_incomingConn = 40, d_Intn = (\<lambda>n. slot), d_IsClosed = False,
       d_OpenStream = opened, d_SendBinaryInt = sent, d_LocalPort = 9000 \<rparr>"


section \<open>Verified properties\<close>

subsection \<open>Defaults\<close>

lemma applyDefaults_Server_MuxSession:
  "Server_MuxSession (applyDefaults pl cfg) =
     (if Server_MuxSession cfg \<le> 0 then 1 else Server_MuxSession cfg)"
  by (simp add: applyDefaults_def defaultMuxSession_def)

lemma applyDefaults_Client_MuxSession:
  "Client_MuxSession (applyDefaults pl cfg) =
     (if Client_MuxSession cfg \<le> 0 then 1 else Client_MuxSession cfg)"
  by (simp add: applyDefaults_def defaultMuxSession_def)

lemma applyDefaults_Server_Token:
  "Server_Token (applyDefaults pl cfg) =
     (if Server_Token cfg = [] then ''sahmadiut'' else Server_Token cfg)"
  by (simp add: applyDefaults_def defaultToken_def)

lemma applyDefaults_Client_Token:
  "Client_Token (applyDefaults pl cfg) =
     (if Client_Token cfg = [] then ''sahmadiut'' else Client_Token cfg)"
  by (simp add: applyDefaults_def defaultToken_def)

text \<open>
  Claim C9. \<open>applyDefaults\<close> replaces a \<open>MuxSession\<close> of 0, or any non-positive value, by 1
  and an empty \<open>Token\<close> by \<open>"sahmadiut"\<close>, on the server half and on the client half of the
  configuration, and leaves every other value of these four fields as it was; so the
  configuration handed on has \<open>MuxSession \<ge> 1\<close> and a non-empty token on both halves.
\<close>

theorem C9_applyDefaults_degenerate:
  "Server_MuxSession (applyDefaults pl cfg) =
     (if Server_MuxSession cfg \<le> 0 then 1 else Server_MuxSession cfg)
   \<and> Client_MuxSession (applyDefaults pl cfg) =
     (if Client_MuxSession cfg \<le> 0 then 1 else Client_MuxSession cfg)
   \<and> Server_Token (applyDefaults pl cfg) =
     (if Server_Token cfg = [] then ''sahmadiut'' else Server_Token cfg)
   \<and> Client_Token (applyDefaults pl cfg) =
     (if Client_Token cfg = [] then ''sahmadiut'' else Client_Token cfg)
   \<and> 1 \<le> Server_MuxSession (applyDefaults pl cfg)
   \<and> 1 \<le> Client_MuxSession (applyDefaults pl cfg)
   \<and> Server_Token (applyDefaults pl cfg) \<noteq> []
   \<and> Client_Token (applyDefaults pl cfg) \<noteq> []"
  using applyDefaults_Server_MuxSession [of pl cfg] applyDefaults_Client_MuxSession [of pl cfg]
    applyDefaults_Server_Token [of pl cfg] applyDefaults_Client_Token [of pl cfg]
  by (simp split: if_splits)

subsection \<open>The control-channel reader of the client\<close>

lemma ChannelDialer_fields:
  "c_config (fst (ChannelDialer c obs)) = c_config c
   \<and> c_timeout (fst (ChannelDialer c obs)) = c_timeout c
   \<and> c_heartbeatSig (fst (ChannelDialer c obs)) = c_heartbeatSig c
   \<and> c_chanSignal (fst (ChannelDialer c obs)) = c_chanSignal c"
  by (induction c obs rule: ChannelDialer.induct) (auto split: sum.splits prod.splits)

lemma ws_client_fields:
  "ws_client cfg c \<Longrightarrow>
     c_config c = cfg \<and> c_timeout c = 5 * Second \<and> c_heartbeatSig c = ''0'' \<and> c_chanSignal c = ''1''"
proof (induction rule: ws_client.induct)
  case (ws_new ctx)
  show ?case by (simp add: NewWSClient_def)
next
  case (ws_enter c)
  then show ?case by (simp add: WsTransport_Restart_enter_def)
next
  case (ws_resume c fresh)
  then show ?case by (simp add: WsTransport_Restart_resume_def)
next
  case (ws_dialed c obs)
  then show ?case using ChannelDialer_fields [of c obs] by simp
qed

lemma channelSignal_cases:
  assumes "c_heartbeatSig c = ''0''" and "c_chanSignal c = ''1''"
  shows "channelSignal c ''1'' = ([Go go_tunnelDialer], True)"
    and "channelSignal c ''0'' = ([Log DebugLevel ''heartbeat received successfully''], True)"
    and "m \<noteq> ''0'' \<Longrightarrow> m \<noteq> ''1'' \<Longrightarrow> channelSignal c m =
          ([Log ErrorLevel ''unexpected response from control channel: %s. Restarting client...'',
            Go go_Restart], False)"
  using assms by (simp_all add: channelSignal_def)

lemma channelListener_restarts:
  "count_list (fst (channelListener c obs)) (Go go_Restart) \<le> 1"
proof (induction c obs rule: channelListener.induct)
  case (1 c)
  show ?case by simp
next
  case (2 c dn received rest)
  show ?case
  proof (cases "dn \<or> c_controlChannel c = None")
    case True
    then show ?thesis by auto
  next
    case False
    then obtain ch where ch: "c_controlChannel c = Some ch" and nd: "\<not> dn" by auto
    show ?thesis
    proof (cases received)
      case (Inl err)
      with ch nd show ?thesis by simp
    next
      case (Inr message)
      show ?thesis
      proof (cases "snd (channelSignal c message)")
        case True
        then obtain es where es: "channelSignal c message = (es, True)"
          by (cases "channelSignal c message") auto
        then have "Go go_Restart \<notin> set es"
          by (auto simp: channelSignal_def split: if_splits)
        then have "count_list es (Go go_Restart) = 0" by (simp add: count_list_0_iff)
        moreover have "count_list (fst (channelListener c rest)) (Go go_Restart) \<le> 1"
          using "2.IH" [OF nd ch Inr] es by simp
        ultimately show ?thesis using ch nd Inr es
          by (auto split: prod.splits)
      next
        case False
        then obtain es where es: "channelSignal c message = (es, False)"
          by (cases "channelSignal c message") auto
        then have "es = [Log ErrorLevel ''unexpected response from control channel: %s. Restarting client...'',
            Go go_Restart]"
          by (auto simp: channelSignal_def split: if_splits)
        with ch nd Inr es show ?thesis by simp
      qed
    qed
  qed
qed

text \<open>
  Claim C1. In the client's control-channel reader, for a client built by \<open>NewWSClient\<close>
  with its control channel up: a message \<open>"1"\<close> read from the channel starts exactly one
  tunnel dial and the loop goes on; a message \<open>"0"\<close> is a heartbeat, it is logged at debug
  level and nothing else happens (no reply), and the loop goes on; any other message, and
  any read error, starts exactly one \<open>Restart\<close> and ends the loop, whatever follows on the
  channel; and a whole run of the reader starts at most one \<open>Restart\<close>.
\<close>

theorem C1_channelListener_signals:
  assumes "ws_client cfg c" and "c_controlChannel c = Some ch"
  shows
    "channelListener c ((False, Inr ''1'') # rest) =
       (Go go_tunnelDialer # fst (channelListener c rest), snd (channelListener c rest))
     \<and> channelListener c ((False, Inr ''0'') # rest) =
       (Log DebugLevel ''heartbeat received successfully'' # fst (channelListener c rest),
        snd (channelListener c rest))
     \<and> (m \<noteq> ''0'' \<and> m \<noteq> ''1'' \<longrightarrow>
          channelListener c ((False, Inr m) # rest) =
            ([Log ErrorLevel ''unexpected response from control channel: %s. Restarting client...'',
              Go go_Restart], Returned))
     \<and> channelListener c ((False, Inl err) # rest) =
          ([Log ErrorLevel ''error receiving channel signal: %v. Restarting client...'',
            Go go_Restart], Returned)
     \<and> count_list (fst (channelListener c obs)) (Go go_Restart) \<le> 1"
proof -
  from assms(1) have sig: "c_heartbeatSig c = ''0''" "c_chanSignal c = ''1''"
    using ws_client_fields by blast+
  have one: "channelListener c ((False, Inr ''1'') # rest) =
       (Go go_tunnelDialer # fst (channelListener c rest), snd (channelListener c rest))"
    using assms(2) channelSignal_cases(1) [OF sig] by (simp split: prod.splits)
  have zero: "channelListener c ((False, Inr ''0'') # rest) =
       (Log DebugLevel ''heartbeat received successfully'' # fst (channelListener c rest),
        snd (channelListener c rest))"
    using assms(2) channelSignal_cases(2) [OF sig] by (simp split: prod.splits)
  have other: "m \<noteq> ''0'' \<and> m \<noteq> ''1'' \<longrightarrow>
          channelListener c ((False, Inr m) # rest) =
            ([Log ErrorLevel ''unexpected response from control channel: %s. Restarting client...'',
              Go go_Restart], Returned)"
    using assms(2) channelSignal_cases(3) [OF sig, of m] by simp
  have err: "channelListener c ((False, Inl err) # rest) =
          ([Log ErrorLevel ''error receiving channel signal: %v. Restarting client...'',
            Go go_Restart], Returned)"
    using assms(2) by simp
  show ?thesis using one zero other err channelListener_restarts [of c obs] by blast
qed

lemma scenario_client_dialed:
  "ws_client scenario_WsConfig (fst (ChannelDialer (NewWSClient 0 scenario_WsConfig) [(False, Inr 7)]))
   \<and> c_controlChannel (fst (ChannelDialer (NewWSClient 0 scenario_WsConfig) [(False, Inr 7)])) = Some 7"
proof
  show "ws_client scenario_WsConfig
          (fst (ChannelDialer (NewWSClient 0 scenario_WsConfig) [(False, Inr 7)]))"
    by (rule ws_client.ws_dialed [OF ws_client.ws_new])
  show "c_controlChannel (fst (ChannelDialer (NewWSClient 0 scenario_WsConfig) [(False, Inr 7)])) =
          Some 7"
    by simp
qed

theorem C1_channelListener_signals_witness:
  "channelListener (fst (ChannelDialer (NewWSClient 0 scenario_WsConfig) [(False, Inr 7)]))
     [(False, Inr ''1''), (False, Inr ''0''), (False, Inr ''2''), (False, Inr ''1'')] =
   ([Go go_tunnelDialer,
     Log DebugLevel ''heartbeat received successfully'',
     Log ErrorLevel ''unexpected response from control channel: %s. Restarting client...'',
     Go go_Restart], Returned)"
proof -
  let ?c = "fst (ChannelDialer (NewWSClient 0 scenario_WsConfig) [(False, Inr 7)])"
  have r: "ws_client scenario_WsConfig ?c" and ch: "c_controlChannel ?c = Some 7"
    using scenario_client_dialed by blast+
  note C = C1_channelListener_signals [OF r ch]
  have 3: "channelListener ?c [(False, Inr ''2''), (False, Inr ''1'')] =
      ([Log ErrorLevel ''unexpected response from control channel: %s. Restarting client...'',
        Go go_Restart], Returned)"
    using C [where m = "''2''" and rest = "[(False, Inr ''1'')]"] by simp
  have 2: "channelListener ?c [(False, Inr ''0''), (False, Inr ''2''), (False, Inr ''1'')] =
      ([Log DebugLevel ''heartbeat received successfully'',
        Log ErrorLevel ''unexpected response from control channel: %s. Restarting client...'',
        Go go_Restart], Returned)"
    using C [where rest = "[(False, Inr ''2''), (False, Inr ''1'')]"] 3 by simp
  show ?thesis
    using C [where rest = "[(False, Inr ''0''), (False, Inr ''2''), (False, Inr ''1'')]"] 2 by simp
qed

subsection \<open>The local dialer of the client\<close>

lemma tcpDialer_effects:
  "set (snd (tcpDialer c nw address nodelay)) \<subseteq>
     (case ResolveTCPAddr nw address of
        Inl err \<Rightarrow> {}
      | Inr a \<Rightarrow>
          insert (DialTCP \<lparr> Timeout = c_timeout c, net_Dialer.KeepAlive = WsConfig.KeepAlive (c_config c) \<rparr> a)
            (range Close))"
  by (auto simp: tcpDialer_def Let_def split: sum.splits prod.splits option.splits if_splits)

lemma tcpDialer_dials:
  "ResolveTCPAddr nw address = Inr a \<Longrightarrow>
     DialTCP \<lparr> Timeout = c_timeout c, net_Dialer.KeepAlive = WsConfig.KeepAlive (c_config c) \<rparr> a
       \<in> set (snd (tcpDialer c nw address nodelay))"
  by (auto simp: tcpDialer_def Let_def split: sum.splits prod.splits option.splits if_splits)

lemma localDialer_unfold:
  "localDialer c nw dn t port =
     (if dn then []
      else
        (case fst (tcpDialer c nw (localAddress c port) (WsConfig.Nodelay (c_config c))) of
           Inl err \<Rightarrow>
             snd (tcpDialer c nw (localAddress c port) (WsConfig.Nodelay (c_config c))) @
             [Log ErrorLevel ''connecting to local address %s is not possible'', Close t]
         | Inr l \<Rightarrow>
             snd (tcpDialer c nw (localAddress c port) (WsConfig.Nodelay (c_config c))) @
             [Log DebugLevel ''connected to local address %s successfully'',
              Go (go_WSToTCPConnHandler t l (c_usageMonitor c) (uint port)
                    (WsConfig.Sniffing (c_config c)))]))"
proof (cases "tcpDialer c nw (localAddress c port) (WsConfig.Nodelay (c_config c))")
  case (Pair r es)
  then show ?thesis by (cases r) (simp_all add: localDialer_def)
qed

lemma localDialer_effects:
  "set (localDialer c nw dn t port) \<subseteq>
     set (snd (tcpDialer c nw (localAddress c port) (WsConfig.Nodelay (c_config c)))) \<union>
     {Log ErrorLevel ''connecting to local address %s is not possible'', Close t,
      Log DebugLevel ''connected to local address %s successfully''} \<union>
     range (\<lambda>l. Go (go_WSToTCPConnHandler t l (c_usageMonitor c) (uint port)
                       (WsConfig.Sniffing (c_config c))))"
  by (auto simp: localDialer_unfold split: sum.splits)

text \<open>
  Claim C4, as the code has it. For a client built by \<open>NewWSClient\<close>, \<open>localDialer\<close> on a
  tunnel stream carrying the port \<open>p\<close> resolves the local target to \<open>Forwarder[p]\<close> when
  that key exists and to \<open>"127.0.0.1:<p>"\<close> otherwise; every TCP dial it makes goes to that
  (resolved) target with a connection timeout of 5 seconds, the \<open>timeout\<close> that
  \<open>NewWSClient\<close> sets, and the configured \<open>KeepAlive\<close>, and it makes that dial whenever
  its scope is not done and the target resolves; when the dial fails it logs the failure
  and closes the tunnel stream; and it never starts a \<open>Restart\<close>.
\<close>

theorem C4_localDialer_target_and_dial:
  assumes "ws_client cfg c"
  shows
    "localAddress c port =
       (case WsConfig.Forwarder cfg (uint port) of
          Some a \<Rightarrow> a
        | None \<Rightarrow> ''127.0.0.1:'' @ Itoa (uint port))
     \<and> (\<forall>d a. DialTCP d a \<in> set (localDialer c nw dn t port) \<longrightarrow>
            d = \<lparr> Timeout = 5 * Second, net_Dialer.KeepAlive = WsConfig.KeepAlive cfg \<rparr>
            \<and> ResolveTCPAddr nw (localAddress c port) = Inr a)
     \<and> (\<not> dn \<and> ResolveTCPAddr nw (localAddress c port) = Inr a \<longrightarrow>
            DialTCP \<lparr> Timeout = 5 * Second, net_Dialer.KeepAlive = WsConfig.KeepAlive cfg \<rparr> a
              \<in> set (localDialer c nw dn t port))
     \<and> (\<not> dn \<and> fst (tcpDialer c nw (localAddress c port) (WsConfig.Nodelay cfg)) = Inl err \<longrightarrow>
            localDialer c nw dn t port =
              snd (tcpDialer c nw (localAddress c port) (WsConfig.Nodelay cfg)) @
              [Log ErrorLevel ''connecting to local address %s is not possible'', Close t])
     \<and> Go go_Restart \<notin> set (localDialer c nw dn t port)"
proof -
  from assms have cfg: "c_config c = cfg" and tmo: "c_timeout c = 5 * Second"
    using ws_client_fields by blast+
  have target: "localAddress c port =
       (case WsConfig.Forwarder cfg (uint port) of
          Some a \<Rightarrow> a
        | None \<Rightarrow> ''127.0.0.1:'' @ Itoa (uint port))"
    by (simp add: localAddress_def cfg)
  have sub: "set (localDialer c nw dn t port) \<subseteq>
     set (snd (tcpDialer c nw (localAddress c port) (WsConfig.Nodelay cfg))) \<union>
     {Log ErrorLevel ''connecting to local address %s is not possible'', Close t,
      Log DebugLevel ''connected to local address %s successfully''} \<union>
     range (\<lambda>l. Go (go_WSToTCPConnHandler t l (c_usageMonitor c) (uint port)
                       (WsConfig.Sniffing cfg)))"
    using localDialer_effects [of c nw dn t port] by (simp add: cfg)
  have dials: "\<forall>d a. DialTCP d a \<in> set (localDialer c nw dn t port) \<longrightarrow>
            d = \<lparr> Timeout = 5 * Second, net_Dialer.KeepAlive = WsConfig.KeepAlive cfg \<rparr>
            \<and> ResolveTCPAddr nw (localAddress c port) = Inr a"
  proof (intro allI impI)
    fix d a
    assume "DialTCP d a \<in> set (localDialer c nw dn t port)"
    with sub have "DialTCP d a \<in> set (snd (tcpDialer c nw (localAddress c port) (WsConfig.Nodelay cfg)))"
      by auto
    with tcpDialer_effects [of c nw "localAddress c port" "WsConfig.Nodelay cfg"]
    show "d = \<lparr> Timeout = 5 * Second, net_Dialer.KeepAlive = WsConfig.KeepAlive cfg \<rparr>
            \<and> ResolveTCPAddr nw (localAddress c port) = Inr a"
      by (auto simp: cfg tmo split: sum.splits)
  qed
  have does: "\<not> dn \<and> ResolveTCPAddr nw (localAddress c port) = Inr a \<longrightarrow>
            DialTCP \<lparr> Timeout = 5 * Second, net_Dialer.KeepAlive = WsConfig.KeepAlive cfg \<rparr> a
              \<in> set (localDialer c nw dn t port)"
  proof
    assume a: "\<not> dn \<and> ResolveTCPAddr nw (localAddress c port) = Inr a"
    then have "DialTCP \<lparr> Timeout = 5 * Second, net_Dialer.KeepAlive = WsConfig.KeepAlive cfg \<rparr> a
       \<in> set (snd (tcpDialer c nw (localAddress c port) (WsConfig.Nodelay cfg)))"
      using tcpDialer_dials [of nw "localAddress c port" a c "WsConfig.Nodelay cfg"]
      by (simp add: cfg tmo)
    with a show "DialTCP \<lparr> Timeout = 5 * Second, net_Dialer.KeepAlive = WsConfig.KeepAlive cfg \<rparr> a
              \<in> set (localDialer c nw dn t port)"
      using localDialer_unfold [of c nw dn t port] by (auto simp: cfg split: sum.splits)
  qed
  have fails: "\<not> dn \<and> fst (tcpDialer c nw (localAddress c port) (WsConfig.Nodelay cfg)) = Inl err \<longrightarrow>
            localDialer c nw dn t port =
              snd (tcpDialer c nw (localAddress c port) (WsConfig.Nodelay cfg)) @
              [Log ErrorLevel ''connecting to local address %s is not possible'', Close t]"
    using localDialer_unfold [of c nw dn t port] by (auto simp: cfg split: sum.splits)
  have norestart: "Go go_Restart \<notin> set (localDialer c nw dn t port)"
  proof
    assume "Go go_Restart \<in> set (localDialer c nw dn t port)"
    with sub have "Go go_Restart \<in> set (snd (tcpDialer c nw (localAddress c port) (WsConfig.Nodelay cfg)))"
      by auto
    with tcpDialer_effects [of c nw "localAddress c port" "WsConfig.Nodelay cfg"]
    show False by (auto split: sum.splits)
  qed
  show ?thesis using target dials does fails norestart by blast
qed

lemma scenario_localDialer:
  "localDialer (NewWSClient 0 scenario_WsConfig) refusing_net False 9 8080 =
     [DialTCP \<lparr> Timeout = 5 * Second, net_Dialer.KeepAlive = 20 * Second \<rparr> ''127.0.0.1:22'',
      Log ErrorLevel ''connecting to local address %s is not possible'',
      Close 9]"
  by (simp add: localDialer_def tcpDialer_def localAddress_def NewWSClient_def
      scenario_WsConfig_def refusing_net_def)

text \<open>
  Claim C4 as stated gives the dial a timeout of 2 seconds. The client of the first
  scenario, handed a stream for port 8080 on a network that refuses the dial, dials
  \<open>127.0.0.1:22\<close> with a timeout of 5 seconds, and makes no dial with a timeout of 2.
\<close>

theorem C4_localDialer_timeout_counterexample:
  "localDialer (NewWSClient 0 scenario_WsConfig) refusing_net False 9 8080 =
     [DialTCP \<lparr> Timeout = 5 * Second, net_Dialer.KeepAlive = 20 * Second \<rparr> ''127.0.0.1:22'',
      Log ErrorLevel ''connecting to local address %s is not possible'',
      Close 9]
   \<and> DialTCP \<lparr> Timeout = 2 * Second, net_Dialer.KeepAlive = 20 * Second \<rparr> ''127.0.0.1:22''
       \<notin> set (localDialer (NewWSClient 0 scenario_WsConfig) refusing_net False 9 8080)"
  by (simp add: scenario_localDialer Second_def)

theorem C4_localDialer_target_and_dial_witness:
  "localAddress (NewWSClient 0 scenario_WsConfig) 8080 = ''127.0.0.1:22''
   \<and> localAddress (NewWSClient 0 scenario_WsConfig) 443 = ''127.0.0.1:443''
   \<and> DialTCP \<lparr> Timeout = 5 * Second, net_Dialer.KeepAlive = 20 * Second \<rparr> ''127.0.0.1:22''
       \<in> set (localDialer (NewWSClient 0 scenario_WsConfig) refusing_net False 9 8080)
   \<and> Go go_Restart \<notin> set (localDialer (NewWSClient 0 scenario_WsConfig) refusing_net False 9 8080)"
proof -
  have r: "ws_client scenario_WsConfig (NewWSClient 0 scenario_WsConfig)"
    by (rule ws_client.ws_new)
  have fw: "WsConfig.Forwarder scenario_WsConfig (uint (8080 :: 16 word)) = Some ''127.0.0.1:22''"
    "WsConfig.Forwarder scenario_WsConfig (uint (443 :: 16 word)) = None"
    "WsConfig.KeepAlive scenario_WsConfig = 20 * Second"
    by (simp_all add: scenario_WsConfig_def)
  have it: "Itoa 443 = ''443''"
    by (simp add: Itoa_def dec_str.simps digit_char_def)
  have a: "localAddress (NewWSClient 0 scenario_WsConfig) 8080 = ''127.0.0.1:22''"
    using C4_localDialer_target_and_dial [OF r, where port = 8080] fw by simp
  have b: "localAddress (NewWSClient 0 scenario_WsConfig) 443 = ''127.0.0.1:443''"
    using C4_localDialer_target_and_dial [OF r, where port = 443] fw it by simp
  have res: "ResolveTCPAddr refusing_net (localAddress (NewWSClient 0 scenario_WsConfig) 8080)
     = Inr ''127.0.0.1:22''"
    by (simp add: a refusing_net_def)
  have c: "DialTCP \<lparr> Timeout = 5 * Second, net_Dialer.KeepAlive = 20 * Second \<rparr> ''127.0.0.1:22''
       \<in> set (localDialer (NewWSClient 0 scenario_WsConfig) refusing_net False 9 8080)"
    using C4_localDialer_target_and_dial [OF r, where port = 8080 and nw = refusing_net
        and dn = False and a = "''127.0.0.1:22''" and t = 9] res fw by simp
  have d: "Go go_Restart \<notin> set (localDialer (NewWSClient 0 scenario_WsConfig) refusing_net False 9 8080)"
    using C4_localDialer_target_and_dial [OF r, where port = 8080 and nw = refusing_net
        and dn = False and t = 9] by simp
  show ?thesis using a b c d by simp
qed

subsection \<open>The restart gate\<close>

lemma acceptRound_installs:
  assumes "installs s idx dn a"
  shows "acceptRound s idx dn a =
     (s\<lparr>s_smuxSession := (s_smuxSession s)[idx := Some (acceptedSession s (projr (at_Accept a)))]\<rparr>,
      Log DebugLevel ''waiting for accept incoming tunnel connection on %s''
        # nodelayLog s (at_SetNoDelay a) @
      [SendBinaryString (projr (at_AcceptStream a)) ''ok'',
       Log InfoLevel ''successfully established SMUX session with ID %d for connection %s'',
       WgDone],
      Established)"
proof -
  from assms obtain cn strm where "at_Accept a = Inr cn" "at_AcceptStream a = Inr strm"
    by (cases "at_Accept a"; cases "at_AcceptStream a") (auto simp: installs_def)
  with assms show ?thesis by (simp add: acceptRound_def Let_def installs_def)
qed

lemma acceptRound_keeps:
  assumes "\<not> installs s idx dn a"
  shows "fst (acceptRound s idx dn a) = s \<and> snd (snd (acceptRound s idx dn a)) \<noteq> Established
         \<and> WgDone \<notin> set (fst (snd (acceptRound s idx dn a)))"
proof (cases dn)
  case True
  then show ?thesis by (simp add: acceptRound_def)
next
  case nd: False
  show ?thesis
  proof (cases "at_Accept a")
    case (Inl e)
    with nd show ?thesis by (simp add: acceptRound_def)
  next
    case acc: (Inr cn)
    show ?thesis
    proof (cases "at_isTCP a")
      case False
      with nd acc show ?thesis by (simp add: acceptRound_def)
    next
      case tcp: True
      show ?thesis
      proof (cases "at_smux a")
        case (Some e)
        with nd acc tcp show ?thesis by (simp add: acceptRound_def Let_def nodelayLog_def split: option.split)
      next
        case smux: None
        show ?thesis
        proof (cases "at_AcceptStream a")
          case (Inl e)
          with nd acc tcp smux show ?thesis by (simp add: acceptRound_def Let_def nodelayLog_def split: option.split)
        next
          case st: (Inr strm)
          show ?thesis
          proof (cases "at_ReceiveBinaryString a")
            case (Inl e)
            with nd acc tcp smux st show ?thesis by (simp add: acceptRound_def Let_def nodelayLog_def split: option.split)
          next
            case tok: (Inr token)
            show ?thesis
            proof (cases "token = TcpMuxConfig.Token (s_config s)")
              case False
              with nd acc tcp smux st tok show ?thesis by (simp add: acceptRound_def Let_def nodelayLog_def split: option.split)
            next
              case match: True
              show ?thesis
              proof (cases "at_SendBinaryString a")
                case (Some e)
                with nd acc tcp smux st tok match show ?thesis
                  by (simp add: acceptRound_def Let_def nodelayLog_def split: option.split)
              next
                case None
                with assms nd acc tcp smux st tok match
                have "\<not> idx < length (s_smuxSession s)" by (simp add: installs_def)
                with None nd acc tcp smux st tok match show ?thesis
                  by (simp add: acceptRound_def Let_def nodelayLog_def split: option.split)
              qed
            qed
          qed
        qed
      qed
    qed
  qed
qed

lemma acceptRound_fields:
  "s_config (fst (acceptRound s idx dn a)) = s_config s
   \<and> s_timeout (fst (acceptRound s idx dn a)) = s_timeout s
   \<and> s_cancel (fst (acceptRound s idx dn a)) = s_cancel s
   \<and> s_ctx (fst (acceptRound s idx dn a)) = s_ctx s
   \<and> s_restartMutex (fst (acceptRound s idx dn a)) = s_restartMutex s
   \<and> s_usageMonitor (fst (acceptRound s idx dn a)) = s_usageMonitor s
   \<and> length (s_smuxSession (fst (acceptRound s idx dn a))) = length (s_smuxSession s)"
proof (cases "installs s idx dn a")
  case True
  from acceptRound_installs [OF this] show ?thesis by simp
next
  case False
  from acceptRound_keeps [OF this] show ?thesis by simp
qed

lemma mux_server_fields:
  "mux_server cfg s \<Longrightarrow>
     s_config s = cfg \<and> s_timeout s = 2 * Second
     \<and> length (s_smuxSession s) = nat (TcpMuxConfig.MuxSession cfg)
     \<and> 0 \<le> TcpMuxConfig.MuxSession cfg \<and> s_cancel s = Some (s_ctx s)"
proof (induction rule: mux_server.induct)
  case (mux_new ctx s)
  then show ?case
    by (auto simp: NewTcpMuxServer_def make_sessions_def split: if_splits)
next
  case (mux_enter s)
  then show ?case by (simp add: TcpMuxTransport_Restart_enter_def)
next
  case (mux_resume s fresh)
  then show ?case by (simp add: TcpMuxTransport_Restart_resume_def make_sessions_def)
next
  case (mux_round s idx dn a)
  then show ?case using acceptRound_fields [of s idx dn a] by simp
qed

lemma ws_client_cancel: "ws_client cfg c \<Longrightarrow> c_cancel c = Some (c_ctx c)"
proof (induction rule: ws_client.induct)
  case (ws_new ctx)
  show ?case by (simp add: NewWSClient_def)
next
  case (ws_enter c)
  then show ?case by (simp add: WsTransport_Restart_enter_def)
next
  case (ws_resume c fresh)
  then show ?case by (simp add: WsTransport_Restart_resume_def)
next
  case (ws_dialed c obs)
  have "c_cancel (fst (ChannelDialer c obs)) = c_cancel c \<and> c_ctx (fst (ChannelDialer c obs)) = c_ctx c"
    by (induction c obs rule: ChannelDialer.induct) (auto split: sum.splits prod.splits)
  with ws_dialed show ?case by simp
qed

text \<open>The gate: the count of restarts in progress is 1 while the mutex is held, else 0.\<close>

lemma mux_restart_step_gate:
  "(n = (if s_restartMutex s then 1 else 0)) \<Longrightarrow> mux_restart_step (s, n) ev = (s', n') \<Longrightarrow>
     n' = (if s_restartMutex s' then 1 else 0)"
  by (cases ev)
    (auto simp: TcpMuxTransport_Restart_enter_def TcpMuxTransport_Restart_resume_def
      split: if_splits option.splits)

lemma mux_restart_foldl_gate:
  "n = (if s_restartMutex s then 1 else 0) \<Longrightarrow>
     snd (foldl mux_restart_step (s, n) evs) =
       (if s_restartMutex (fst (foldl mux_restart_step (s, n) evs)) then 1 else 0)"
proof (induction evs arbitrary: s n)
  case Nil
  then show ?case by simp
next
  case (Cons ev evs)
  obtain s' n' where st: "mux_restart_step (s, n) ev = (s', n')"
    by (cases "mux_restart_step (s, n) ev")
  from mux_restart_step_gate [OF Cons.prems st] have "n' = (if s_restartMutex s' then 1 else 0)" .
  from Cons.IH [OF this] st show ?case by simp
qed

lemma ws_restart_step_gate:
  "(n = (if c_restartMutex c then 1 else 0)) \<Longrightarrow> ws_restart_step (c, n) ev = (c', n') \<Longrightarrow>
     n' = (if c_restartMutex c' then 1 else 0)"
  by (cases ev)
    (auto simp: WsTransport_Restart_enter_def WsTransport_Restart_resume_def split: if_splits)

lemma ws_restart_foldl_gate:
  "n = (if c_restartMutex c then 1 else 0) \<Longrightarrow>
     snd (foldl ws_restart_step (c, n) evs) =
       (if c_restartMutex (fst (foldl ws_restart_step (c, n) evs)) then 1 else 0)"
proof (induction evs arbitrary: c n)
  case Nil
  then show ?case by simp
next
  case (Cons ev evs)
  obtain c' n' where st: "ws_restart_step (c, n) ev = (c', n')"
    by (cases "ws_restart_step (c, n) ev")
  from ws_restart_step_gate [OF Cons.prems st] have "n' = (if c_restartMutex c' then 1 else 0)" .
  from Cons.IH [OF this] st show ?case by simp
qed

lemma mux_Restart_locked:
  "s_restartMutex s \<Longrightarrow> TcpMuxTransport_Restart s fresh =
     (s, [Log WarnLevel ''server restart already in progress, skipping restart attempt''])"
  by (simp add: TcpMuxTransport_Restart_def TcpMuxTransport_Restart_enter_def)

lemma mux_Restart_free:
  assumes "\<not> s_restartMutex s" and "s_cancel s = Some old"
    and "0 \<le> TcpMuxConfig.MuxSession (s_config s)"
  shows "TcpMuxTransport_Restart_enter s =
      (s\<lparr>s_restartMutex := True\<rparr>,
       [Log InfoLevel ''restarting server...'', CancelScope old, Sleep (2 * Second)], True)"
    and "TcpMuxTransport_Restart_resume (s\<lparr>s_restartMutex := True\<rparr>) fresh =
      (s\<lparr>s_ctx := fresh, s_cancel := Some fresh,
         s_smuxSession := replicate (nat (TcpMuxConfig.MuxSession (s_config s))) None,
         s_usageMonitor := NewDataStore ('':'' @ Itoa (TcpMuxConfig.WebPort (s_config s))) fresh
                             (TcpMuxConfig.SnifferLog (s_config s)),
         s_restartMutex := False\<rparr>,
       [Go go_TunnelListener])"
    and "TcpMuxTransport_Restart s fresh =
      (s\<lparr>s_ctx := fresh, s_cancel := Some fresh,
         s_smuxSession := replicate (nat (TcpMuxConfig.MuxSession (s_config s))) None,
         s_usageMonitor := NewDataStore ('':'' @ Itoa (TcpMuxConfig.WebPort (s_config s))) fresh
                             (TcpMuxConfig.SnifferLog (s_config s)),
         s_restartMutex := False\<rparr>,
       [Log InfoLevel ''restarting server...'', CancelScope old, Sleep (2 * Second),
        Go go_TunnelListener])"
  using assms
  by (simp_all add: TcpMuxTransport_Restart_def TcpMuxTransport_Restart_enter_def
      TcpMuxTransport_Restart_resume_def make_sessions_def)

lemma ws_Restart_locked:
  "c_restartMutex c \<Longrightarrow> WsTransport_Restart c fresh =
     (c, [Log WarnLevel ''client is already restarting''])"
  by (simp add: WsTransport_Restart_def WsTransport_Restart_enter_def)

lemma ws_Restart_free:
  assumes "\<not> c_restartMutex c" and "c_cancel c = Some old"
  shows "WsTransport_Restart_enter c =
      (c\<lparr>c_restartMutex := True\<rparr>,
       [Log InfoLevel ''restarting client...'', CancelScope old, Sleep (2 * Second)], True)"
    and "WsTransport_Restart_resume (c\<lparr>c_restartMutex := True\<rparr>) fresh =
      (c\<lparr>c_ctx := fresh, c_cancel := Some fresh, c_controlChannel := None,
         c_usageMonitor := NewDataStore ('':'' @ Itoa (WsConfig.WebPort (c_config c))) fresh
                             (WsConfig.SnifferLog (c_config c)),
         c_restartMutex := False\<rparr>,
       [Go go_ChannelDialer])"
    and "WsTransport_Restart c fresh =
      (c\<lparr>c_ctx := fresh, c_cancel := Some fresh, c_controlChannel := None,
         c_usageMonitor := NewDataStore ('':'' @ Itoa (WsConfig.WebPort (c_config c))) fresh
                             (WsConfig.SnifferLog (c_config c)),
         c_restartMutex := False\<rparr>,
       [Log InfoLevel ''restarting client...'', CancelScope old, Sleep (2 * Second),
        Go go_ChannelDialer])"
  using assms
  by (simp_all add: WsTransport_Restart_def WsTransport_Restart_enter_def
      WsTransport_Restart_resume_def)

lemma scenario_server_new: "NewTcpMuxServer 0 scenario_TcpMuxConfig = Some scenario_server"
  by (simp add: NewTcpMuxServer_def make_sessions_def scenario_TcpMuxConfig_def scenario_server_def
      Itoa_def dec_str.simps digit_char_def numeral_2_eq_2)

lemma mux_Restart_resume_new:
  assumes "mux_server cfg s"
  shows "NewTcpMuxServer fresh cfg =
           Some (fst (TcpMuxTransport_Restart_resume (s\<lparr>s_restartMutex := True\<rparr>) fresh))"
proof -
  from mux_server_fields [OF assms]
  have f: "s_config s = cfg" "s_timeout s = 2 * Second" "0 \<le> TcpMuxConfig.MuxSession cfg"
    by blast+
  then show ?thesis
    by (cases s) (simp add: NewTcpMuxServer_def TcpMuxTransport_Restart_resume_def make_sessions_def)
qed

lemma ws_Restart_resume_new:
  assumes "ws_client cfg c"
  shows "NewWSClient fresh cfg = fst (WsTransport_Restart_resume (c\<lparr>c_restartMutex := True\<rparr>) fresh)"
proof -
  from ws_client_fields [OF assms]
  have f: "c_config c = cfg" "c_timeout c = 5 * Second" "c_heartbeatSig c = ''0''"
    "c_chanSignal c = ''1''"
    by blast+
  then show ?thesis
    by (cases c) (simp add: NewWSClient_def WsTransport_Restart_resume_def)
qed

text \<open>
  Claim C8. For every state of a server or client reachable from its constructor:
  a call of \<open>Restart\<close> that finds the mutex held logs a warning and returns, with the
  state as it was and the scope not cancelled. A call that gets the mutex logs, cancels
  the current scope and sleeps 2 seconds, in this order, with nothing but the mutex
  changed up to the sleep; after the sleep the state is the one the constructor makes for
  the configuration and the fresh scope (a pool of nil slots, or a nil control channel; a
  new usage monitor; the mutex released), and the top-level listener (server) or dialer
  (client) is started last. Whatever the interleaving of calls and wake-ups, at most one
  restart is in progress, and one is in progress exactly while the mutex is held.
\<close>

theorem C8_Restart_try_lock:
  assumes "mux_server cfg s" and "ws_client wcfg c"
  shows
    "(s_restartMutex s \<longrightarrow>
        TcpMuxTransport_Restart s fresh =
          (s, [Log WarnLevel ''server restart already in progress, skipping restart attempt'']))
     \<and> (\<not> s_restartMutex s \<longrightarrow>
        TcpMuxTransport_Restart_enter s =
          (s\<lparr>s_restartMutex := True\<rparr>,
           [Log InfoLevel ''restarting server...'', CancelScope (s_ctx s), Sleep (2 * Second)], True)
        \<and> NewTcpMuxServer fresh cfg =
            Some (fst (TcpMuxTransport_Restart_resume (s\<lparr>s_restartMutex := True\<rparr>) fresh))
        \<and> snd (TcpMuxTransport_Restart_resume (s\<lparr>s_restartMutex := True\<rparr>) fresh) =
            [Go go_TunnelListener]
        \<and> TcpMuxTransport_Restart s fresh =
            (fst (TcpMuxTransport_Restart_resume (s\<lparr>s_restartMutex := True\<rparr>) fresh),
             [Log InfoLevel ''restarting server...'', CancelScope (s_ctx s), Sleep (2 * Second),
              Go go_TunnelListener])
        \<and> snd (mux_restart_run s evs) \<le> 1
        \<and> (snd (mux_restart_run s evs) = 1) = s_restartMutex (fst (mux_restart_run s evs)))
     \<and> (c_restartMutex c \<longrightarrow>
        WsTransport_Restart c fresh = (c, [Log WarnLevel ''client is already restarting'']))
     \<and> (\<not> c_restartMutex c \<longrightarrow>
        WsTransport_Restart_enter c =
          (c\<lparr>c_restartMutex := True\<rparr>,
           [Log InfoLevel ''restarting client...'', CancelScope (c_ctx c), Sleep (2 * Second)], True)
        \<and> NewWSClient fresh wcfg =
            fst (WsTransport_Restart_resume (c\<lparr>c_restartMutex := True\<rparr>) fresh)
        \<and> snd (WsTransport_Restart_resume (c\<lparr>c_restartMutex := True\<rparr>) fresh) =
            [Go go_ChannelDialer]
        \<and> WsTransport_Restart c fresh =
            (fst (WsTransport_Restart_resume (c\<lparr>c_restartMutex := True\<rparr>) fresh),
             [Log InfoLevel ''restarting client...'', CancelScope (c_ctx c), Sleep (2 * Second),
              Go go_ChannelDialer])
        \<and> snd (ws_restart_run c evs) \<le> 1
        \<and> (snd (ws_restart_run c evs) = 1) = c_restartMutex (fst (ws_restart_run c evs)))"
proof -
  from mux_server_fields [OF assms(1)]
  have sf: "s_config s = cfg" "0 \<le> TcpMuxConfig.MuxSession cfg" "s_cancel s = Some (s_ctx s)"
    by blast+
  have cf: "c_cancel c = Some (c_ctx c)" by (rule ws_client_cancel [OF assms(2)])
  have s_locked: "s_restartMutex s \<longrightarrow>
        TcpMuxTransport_Restart s fresh =
          (s, [Log WarnLevel ''server restart already in progress, skipping restart attempt''])"
    using mux_Restart_locked by blast
  have c_locked: "c_restartMutex c \<longrightarrow>
        WsTransport_Restart c fresh = (c, [Log WarnLevel ''client is already restarting''])"
    using ws_Restart_locked by blast
  have s_free: "\<not> s_restartMutex s \<longrightarrow>
        TcpMuxTransport_Restart_enter s =
          (s\<lparr>s_restartMutex := True\<rparr>,
           [Log InfoLevel ''restarting server...'', CancelScope (s_ctx s), Sleep (2 * Second)], True)
        \<and> NewTcpMuxServer fresh cfg =
            Some (fst (TcpMuxTransport_Restart_resume (s\<lparr>s_restartMutex := True\<rparr>) fresh))
        \<and> snd (TcpMuxTransport_Restart_resume (s\<lparr>s_restartMutex := True\<rparr>) fresh) =
            [Go go_TunnelListener]
        \<and> TcpMuxTransport_Restart s fresh =
            (fst (TcpMuxTransport_Restart_resume (s\<lparr>s_restartMutex := True\<rparr>) fresh),
             [Log InfoLevel ''restarting server...'', CancelScope (s_ctx s), Sleep (2 * Second),
              Go go_TunnelListener])
        \<and> snd (mux_restart_run s evs) \<le> 1
        \<and> (snd (mux_restart_run s evs) = 1) = s_restartMutex (fst (mux_restart_run s evs))"
  proof
    assume free: "\<not> s_restartMutex s"
    have m: "0 \<le> TcpMuxConfig.MuxSession (s_config s)" using sf by simp
    note R = mux_Restart_free [OF free sf(3) m]
    have gate: "snd (mux_restart_run s evs) =
            (if s_restartMutex (fst (mux_restart_run s evs)) then 1 else 0)"
      unfolding mux_restart_run_def using free by (intro mux_restart_foldl_gate) simp
    show "TcpMuxTransport_Restart_enter s =
          (s\<lparr>s_restartMutex := True\<rparr>,
           [Log InfoLevel ''restarting server...'', CancelScope (s_ctx s), Sleep (2 * Second)], True)
        \<and> NewTcpMuxServer fresh cfg =
            Some (fst (TcpMuxTransport_Restart_resume (s\<lparr>s_restartMutex := True\<rparr>) fresh))
        \<and> snd (TcpMuxTransport_Restart_resume (s\<lparr>s_restartMutex := True\<rparr>) fresh) =
            [Go go_TunnelListener]
        \<and> TcpMuxTransport_Restart s fresh =
            (fst (TcpMuxTransport_Restart_resume (s\<lparr>s_restartMutex := True\<rparr>) fresh),
             [Log InfoLevel ''restarting server...'', CancelScope (s_ctx s), Sleep (2 * Second),
              Go go_TunnelListener])
        \<and> snd (mux_restart_run s evs) \<le> 1
        \<and> (snd (mux_restart_run s evs) = 1) = s_restartMutex (fst (mux_restart_run s evs))"
      using R mux_Restart_resume_new [OF assms(1), of fresh] gate by simp
  qed
  have c_free: "\<not> c_restartMutex c \<longrightarrow>
        WsTransport_Restart_enter c =
          (c\<lparr>c_restartMutex := True\<rparr>,
           [Log InfoLevel ''restarting client...'', CancelScope (c_ctx c), Sleep (2 * Second)], True)
        \<and> NewWSClient fresh wcfg =
            fst (WsTransport_Restart_resume (c\<lparr>c_restartMutex := True\<rparr>) fresh)
        \<and> snd (WsTransport_Restart_resume (c\<lparr>c_restartMutex := True\<rparr>) fresh) =
            [Go go_ChannelDialer]
        \<and> WsTransport_Restart c fresh =
            (fst (WsTransport_Restart_resume (c\<lparr>c_restartMutex := True\<rparr>) fresh),
             [Log InfoLevel ''restarting client...'', CancelScope (c_ctx c), Sleep (2 * Second),
              Go go_ChannelDialer])
        \<and> snd (ws_restart_run c evs) \<le> 1
        \<and> (snd (ws_restart_run c evs) = 1) = c_restartMutex (fst (ws_restart_run c evs))"
  proof
    assume free: "\<not> c_restartMutex c"
    note R = ws_Restart_free [OF free cf]
    have gate: "snd (ws_restart_run c evs) =
            (if c_restartMutex (fst (ws_restart_run c evs)) then 1 else 0)"
      unfolding ws_restart_run_def using free by (intro ws_restart_foldl_gate) simp
    show "WsTransport_Restart_enter c =
          (c\<lparr>c_restartMutex := True\<rparr>,
           [Log InfoLevel ''restarting client...'', CancelScope (c_ctx c), Sleep (2 * Second)], True)
        \<and> NewWSClient fresh wcfg =
            fst (WsTransport_Restart_resume (c\<lparr>c_restartMutex := True\<rparr>) fresh)
        \<and> snd (WsTransport_Restart_resume (c\<lparr>c_restartMutex := True\<rparr>) fresh) =
            [Go go_ChannelDialer]
        \<and> WsTransport_Restart c fresh =
            (fst (WsTransport_Restart_resume (c\<lparr>c_restartMutex := True\<rparr>) fresh),
             [Log InfoLevel ''restarting client...'', CancelScope (c_ctx c), Sleep (2 * Second),
              Go go_ChannelDialer])
        \<and> snd (ws_restart_run c evs) \<le> 1
        \<and> (snd (ws_restart_run c evs) = 1) = c_restartMutex (fst (ws_restart_run c evs))"
      using R ws_Restart_resume_new [OF assms(2), of fresh] gate by simp
  qed
  show ?thesis using s_locked s_free c_locked c_free by blast
qed


theorem C8_Restart_try_lock_witness:
  "NewTcpMuxServer 1 scenario_TcpMuxConfig = Some (fst (TcpMuxTransport_Restart scenario_server 1))
   \<and> snd (TcpMuxTransport_Restart scenario_server 1) =
       [Log InfoLevel ''restarting server...'', CancelScope 0, Sleep (2 * Second),
        Go go_TunnelListener]
   \<and> TcpMuxTransport_Restart (fst (TcpMuxTransport_Restart_enter scenario_server)) 1 =
       (fst (TcpMuxTransport_Restart_enter scenario_server),
        [Log WarnLevel ''server restart already in progress, skipping restart attempt''])
   \<and> snd (mux_restart_run scenario_server [RestartCall, RestartCall, RestartWake 1, RestartCall]) \<le> 1
   \<and> NewWSClient 1 scenario_WsConfig =
       fst (WsTransport_Restart (NewWSClient 0 scenario_WsConfig) 1)
   \<and> snd (WsTransport_Restart (NewWSClient 0 scenario_WsConfig) 1) =
       [Log InfoLevel ''restarting client...'', CancelScope 0, Sleep (2 * Second),
        Go go_ChannelDialer]
   \<and> snd (ws_restart_run (NewWSClient 0 scenario_WsConfig) [RestartCall, RestartCall]) \<le> 1"
proof -
  have rs: "mux_server scenario_TcpMuxConfig scenario_server"
    by (rule mux_server.mux_new [OF scenario_server_new])
  have rc: "ws_client scenario_WsConfig (NewWSClient 0 scenario_WsConfig)"
    by (rule ws_client.ws_new)
  have free: "\<not> s_restartMutex scenario_server" "s_ctx scenario_server = 0"
    "\<not> c_restartMutex (NewWSClient 0 scenario_WsConfig)"
    "c_ctx (NewWSClient 0 scenario_WsConfig) = 0"
    by (simp_all add: scenario_server_def NewWSClient_def)
  have rl: "mux_server scenario_TcpMuxConfig (fst (TcpMuxTransport_Restart_enter scenario_server))"
    by (rule mux_server.mux_enter [OF rs])
  have locked: "s_restartMutex (fst (TcpMuxTransport_Restart_enter scenario_server))"
    by (simp add: TcpMuxTransport_Restart_enter_def scenario_server_def)
  note A = C8_Restart_try_lock [OF rs rc, where fresh = 1
      and evs = "[RestartCall, RestartCall, RestartWake 1, RestartCall]"]
  note B = C8_Restart_try_lock [OF rl rc, where fresh = 1]
  note C = C8_Restart_try_lock [OF rs rc, where fresh = 1 and evs = "[RestartCall, RestartCall]"]
  show ?thesis using A B C free locked by simp
qed

subsection \<open>The token check of the accept loop\<close>

lemma acceptRound_mismatch:
  "\<not> dn \<Longrightarrow> at_Accept a = Inr cn \<Longrightarrow> at_isTCP a \<Longrightarrow> at_smux a = None \<Longrightarrow>
   at_AcceptStream a = Inr strm \<Longrightarrow> at_ReceiveBinaryString a = Inr token \<Longrightarrow>
   token \<noteq> TcpMuxConfig.Token (s_config s) \<Longrightarrow>
   acceptRound s idx dn a =
     (s, Log DebugLevel ''waiting for accept incoming tunnel connection on %s''
         # nodelayLog s (at_SetNoDelay a) @ [SendBinaryString strm ''error''] @
           (case at_SendBinaryString a of
              Some err \<Rightarrow> [Log ErrorLevel ''failed to send error response to stream %v: %v'']
            | None \<Rightarrow> []) @
           [Log ErrorLevel ''failed to establish a new session. Token mismatch: received %s, expected %s'',
            CloseSession (acceptedSession s cn),
            Sleep (2 * Second)], Continue)"
  by (simp add: acceptRound_def Let_def)

lemma acceptRound_ack_fails:
  "\<not> dn \<Longrightarrow> at_Accept a = Inr cn \<Longrightarrow> at_isTCP a \<Longrightarrow> at_smux a = None \<Longrightarrow>
   at_AcceptStream a = Inr strm \<Longrightarrow> at_ReceiveBinaryString a = Inr token \<Longrightarrow>
   token = TcpMuxConfig.Token (s_config s) \<Longrightarrow> at_SendBinaryString a = Some err \<Longrightarrow>
   acceptRound s idx dn a =
     (s, Log DebugLevel ''waiting for accept incoming tunnel connection on %s''
         # nodelayLog s (at_SetNoDelay a) @
           [SendBinaryString strm ''ok'',
            Log ErrorLevel ''failed to send acknowledgment for token to stream %v: %v'',
            CloseSession (acceptedSession s cn)], Continue)"
  by (simp add: acceptRound_def Let_def)

lemma slept_append: "slept (xs @ ys) = slept xs + slept ys"
  by (simp add: slept_def)

lemma slept_nodelayLog: "slept (nodelayLog s nd) = 0"
  by (simp add: slept_def nodelayLog_def split: option.split)

lemma loops_round_taken:
  assumes "idx < length (al_loops st)" and "al_loops st ! idx = Accepting" and "al_awake st ! idx \<le> t"
    and "acceptRound (al_server st) idx dn a = (s', es, r)"
  shows "loops_round st (t, idx, dn, a) =
     \<lparr> al_server = s',
       al_loops = (al_loops st)
         [idx := (case r of Continue \<Rightarrow> Accepting | Established \<Rightarrow> Serving | Stopped \<Rightarrow> Gone)],
       al_awake = (al_awake st)[idx := t + slept es],
       al_rounds = al_rounds st @ [(t, idx, es)] \<rparr>"
  using assms by (simp add: loops_round_def)

lemma loops_round_asleep:
  assumes "t < al_awake st ! idx"
  shows "loops_round st (t, idx, dn, a) = st"
  using assms by (simp add: loops_round_def)

lemma mismatch_slept:
  "slept (Log DebugLevel ''waiting for accept incoming tunnel connection on %s''
         # nodelayLog s nd @ [SendBinaryString strm ''error''] @
           (case sent of
              Some err \<Rightarrow> [Log ErrorLevel ''failed to send error response to stream %v: %v'']
            | None \<Rightarrow> []) @
           [Log ErrorLevel ''failed to establish a new session. Token mismatch: received %s, expected %s'',
            CloseSession sess,
            Sleep (2 * Second)]) = 2 * Second"
proof -
  have "slept (case sent of
              Some err \<Rightarrow> [Log ErrorLevel ''failed to send error response to stream %v: %v'']
            | None \<Rightarrow> []) = 0"
    by (cases sent) (simp_all add: slept_def)
  then show ?thesis
    using slept_nodelayLog [of s nd] by (simp add: slept_def)
qed

lemma ack_fails_slept:
  "slept (Log DebugLevel ''waiting for accept incoming tunnel connection on %s''
         # nodelayLog s nd @
           [SendBinaryString strm ''ok'',
            Log ErrorLevel ''failed to send acknowledgment for token to stream %v: %v'',
            CloseSession sess]) = 0"
  using slept_nodelayLog [of s nd] by (simp add: slept_def)

lemma loops_round_continue:
  assumes "idx < length (al_loops st)" and "idx < length (al_awake st)"
    and "al_loops st ! idx = Accepting" and "al_awake st ! idx \<le> t"
    and "acceptRound (al_server st) idx dn a = (al_server st, es, Continue)"
  shows "loops_round st (t, idx, dn, a) =
           st\<lparr>al_awake := (al_awake st)[idx := t + slept es],
              al_rounds := al_rounds st @ [(t, idx, es)]\<rparr>"
    and "t' < t + slept es \<longrightarrow>
           loops_round (loops_round st (t, idx, dn, a)) (t', idx, dn', a') =
             loops_round st (t, idx, dn, a)"
    and "j \<noteq> idx \<and> j < length (al_loops st) \<and> al_loops st ! j = Accepting \<and> al_awake st ! j \<le> t' \<longrightarrow>
           al_rounds (loops_round (loops_round st (t, idx, dn, a)) (t', j, dn', a')) =
             al_rounds st @ [(t, idx, es), (t', j, fst (snd (acceptRound (al_server st) j dn' a')))]"
proof -
  have upd: "(al_loops st)[idx := Accepting] = al_loops st"
    using assms(3) by (metis list_update_id)
  from loops_round_taken [OF assms(1,3,4,5)]
  show r: "loops_round st (t, idx, dn, a) =
           st\<lparr>al_awake := (al_awake st)[idx := t + slept es],
              al_rounds := al_rounds st @ [(t, idx, es)]\<rparr>"
    by (simp add: upd)
  show "t' < t + slept es \<longrightarrow>
           loops_round (loops_round st (t, idx, dn, a)) (t', idx, dn', a') =
             loops_round st (t, idx, dn, a)"
  proof
    assume "t' < t + slept es"
    then have "t' < al_awake (loops_round st (t, idx, dn, a)) ! idx"
      using assms(2) by (simp add: r)
    then show "loops_round (loops_round st (t, idx, dn, a)) (t', idx, dn', a') =
             loops_round st (t, idx, dn, a)"
      by (rule loops_round_asleep)
  qed
  show "j \<noteq> idx \<and> j < length (al_loops st) \<and> al_loops st ! j = Accepting \<and> al_awake st ! j \<le> t' \<longrightarrow>
           al_rounds (loops_round (loops_round st (t, idx, dn, a)) (t', j, dn', a')) =
             al_rounds st @ [(t, idx, es), (t', j, fst (snd (acceptRound (al_server st) j dn' a')))]"
  proof
    assume j: "j \<noteq> idx \<and> j < length (al_loops st) \<and> al_loops st ! j = Accepting \<and> al_awake st ! j \<le> t'"
    let ?st1 = "loops_round st (t, idx, dn, a)"
    obtain s2 es2 r2 where a2: "acceptRound (al_server st) j dn' a' = (s2, es2, r2)"
      by (cases "acceptRound (al_server st) j dn' a'") auto
    have 1: "j < length (al_loops ?st1)" "al_loops ?st1 ! j = Accepting" "al_awake ?st1 ! j \<le> t'"
      "al_server ?st1 = al_server st" "al_rounds ?st1 = al_rounds st @ [(t, idx, es)]"
      using j by (simp_all add: r)
    from a2 1(4) have a2': "acceptRound (al_server ?st1) j dn' a' = (s2, es2, r2)" by simp
    from loops_round_taken [OF 1(1,2,3) a2']
    show "al_rounds (loops_round ?st1 (t', j, dn', a')) =
             al_rounds st @ [(t, idx, es), (t', j, fst (snd (acceptRound (al_server st) j dn' a')))]"
      using 1(5) a2 by simp
  qed
qed

text \<open>
  Claim C6, as the code has it. In a round of the accept loop \<open>idx\<close> of a reachable
  server that gets as far as receiving a token on the first stream of the new session:
  if the token equals \<open>config.Token\<close>, the server sends \<open>"ok"\<close> with
  \<open>utils.SendBinaryString\<close> (the length-prefixed string); when that send succeeds it
  installs the session into the slot \<open>idx\<close> of the pool and calls \<open>wg.Done\<close>; when it
  fails, the session is closed, the pool is left as it was and the loop goes on without
  sleeping. If the token differs, the server sends \<open>"error"\<close> the same way, closes the
  session, leaves the pool (and the rest of its state) as it was and sleeps 2 seconds;
  the round ends with that sleep, and this accept loop starts no round, so calls no
  \<open>Accept\<close>, before the 2 seconds are over. The sleep is that of the goroutine \<open>idx\<close>
  alone: a round of another accept loop on the same listener takes place at any time at
  which that loop is awake, also during these 2 seconds.
\<close>

theorem C6_token_check:
  assumes "mux_server cfg s" and "idx < nat (TcpMuxConfig.MuxSession cfg)"
    and "\<not> dn" and "at_Accept a = Inr cn" and "at_isTCP a" and "at_smux a = None"
    and "at_AcceptStream a = Inr strm" and "at_ReceiveBinaryString a = Inr token"
  shows
    "(token = TcpMuxConfig.Token cfg \<and> at_SendBinaryString a = None \<longrightarrow>
        acceptRound s idx dn a =
          (s\<lparr>s_smuxSession := (s_smuxSession s)[idx := Some (acceptedSession s cn)]\<rparr>,
           Log DebugLevel ''waiting for accept incoming tunnel connection on %s''
             # nodelayLog s (at_SetNoDelay a) @
           [SendBinaryString strm ''ok'',
            Log InfoLevel ''successfully established SMUX session with ID %d for connection %s'',
            WgDone],
           Established)
        \<and> s_smuxSession (fst (acceptRound s idx dn a)) ! idx = Some (acceptedSession s cn))
     \<and> (token = TcpMuxConfig.Token cfg \<and> at_SendBinaryString a \<noteq> None \<longrightarrow>
        acceptRound s idx dn a =
          (s, Log DebugLevel ''waiting for accept incoming tunnel connection on %s''
                # nodelayLog s (at_SetNoDelay a) @
              [SendBinaryString strm ''ok'',
               Log ErrorLevel ''failed to send acknowledgment for token to stream %v: %v'',
               CloseSession (acceptedSession s cn)], Continue))
     \<and> (token \<noteq> TcpMuxConfig.Token cfg \<longrightarrow>
        acceptRound s idx dn a =
          (s, Log DebugLevel ''waiting for accept incoming tunnel connection on %s''
                # nodelayLog s (at_SetNoDelay a) @ [SendBinaryString strm ''error''] @
                (case at_SendBinaryString a of
                   Some err \<Rightarrow> [Log ErrorLevel ''failed to send error response to stream %v: %v'']
                 | None \<Rightarrow> []) @
                [Log ErrorLevel ''failed to establish a new session. Token mismatch: received %s, expected %s'',
                 CloseSession (acceptedSession s cn),
                 Sleep (2 * Second)], Continue)
        \<and> acceptStreamConn s idx ((dn, a) # rest) =
            (fst (acceptStreamConn s idx rest),
             fst (snd (acceptRound s idx dn a)) @ fst (snd (acceptStreamConn s idx rest)),
             snd (snd (acceptStreamConn s idx rest))))
     \<and> (token \<noteq> TcpMuxConfig.Token cfg
          \<and> al_server st = s \<and> idx < length (al_loops st) \<and> idx < length (al_awake st)
          \<and> al_loops st ! idx = Accepting \<and> al_awake st ! idx \<le> t \<longrightarrow>
        loops_round st (t, idx, dn, a) =
          st\<lparr>al_awake := (al_awake st)[idx := t + 2 * Second],
             al_rounds := al_rounds st @ [(t, idx, fst (snd (acceptRound s idx dn a)))]\<rparr>
        \<and> (t' < t + 2 * Second \<longrightarrow>
             loops_round (loops_round st (t, idx, dn, a)) (t', idx, dn', a') =
               loops_round st (t, idx, dn, a))
        \<and> (j \<noteq> idx \<and> j < length (al_loops st) \<and> al_loops st ! j = Accepting
             \<and> al_awake st ! j \<le> t' \<longrightarrow>
             al_rounds (loops_round (loops_round st (t, idx, dn, a)) (t', j, dn', a')) =
               al_rounds st @ [(t, idx, fst (snd (acceptRound s idx dn a))),
                               (t', j, fst (snd (acceptRound s j dn' a')))]))
     \<and> (token = TcpMuxConfig.Token cfg \<and> at_SendBinaryString a \<noteq> None
          \<and> al_server st = s \<and> idx < length (al_loops st) \<and> idx < length (al_awake st)
          \<and> al_loops st ! idx = Accepting \<and> al_awake st ! idx \<le> t \<longrightarrow>
        loops_round st (t, idx, dn, a) =
          st\<lparr>al_awake := (al_awake st)[idx := t],
             al_rounds := al_rounds st @ [(t, idx, fst (snd (acceptRound s idx dn a)))]\<rparr>)"
proof -
  from mux_server_fields [OF assms(1)]
  have cfg: "s_config s = cfg" and len: "length (s_smuxSession s) = nat (TcpMuxConfig.MuxSession cfg)"
    by blast+
  have ok: "token = TcpMuxConfig.Token cfg \<and> at_SendBinaryString a = None \<longrightarrow>
        acceptRound s idx dn a =
          (s\<lparr>s_smuxSession := (s_smuxSession s)[idx := Some (acceptedSession s cn)]\<rparr>,
           Log DebugLevel ''waiting for accept incoming tunnel connection on %s''
             # nodelayLog s (at_SetNoDelay a) @
           [SendBinaryString strm ''ok'',
            Log InfoLevel ''successfully established SMUX session with ID %d for connection %s'',
            WgDone],
           Established)
        \<and> s_smuxSession (fst (acceptRound s idx dn a)) ! idx = Some (acceptedSession s cn)"
  proof
    assume t: "token = TcpMuxConfig.Token cfg \<and> at_SendBinaryString a = None"
    with assms cfg len have "installs s idx dn a" by (simp add: installs_def)
    from acceptRound_installs [OF this] assms(2,4,7) len
    show "acceptRound s idx dn a =
          (s\<lparr>s_smuxSession := (s_smuxSession s)[idx := Some (acceptedSession s cn)]\<rparr>,
           Log DebugLevel ''waiting for accept incoming tunnel connection on %s''
             # nodelayLog s (at_SetNoDelay a) @
           [SendBinaryString strm ''ok'',
            Log InfoLevel ''successfully established SMUX session with ID %d for connection %s'',
            WgDone],
           Established)
        \<and> s_smuxSession (fst (acceptRound s idx dn a)) ! idx = Some (acceptedSession s cn)"
      by simp
  qed
  have nack_eq: "acceptRound s idx dn a =
          (s, Log DebugLevel ''waiting for accept incoming tunnel connection on %s''
                # nodelayLog s (at_SetNoDelay a) @
              [SendBinaryString strm ''ok'',
               Log ErrorLevel ''failed to send acknowledgment for token to stream %v: %v'',
               CloseSession (acceptedSession s cn)], Continue)"
    if "token = TcpMuxConfig.Token cfg \<and> at_SendBinaryString a \<noteq> None"
    using that acceptRound_ack_fails [OF assms(3-8), of s _ idx] cfg by auto
  then have nack: "token = TcpMuxConfig.Token cfg \<and> at_SendBinaryString a \<noteq> None \<longrightarrow>
        acceptRound s idx dn a =
          (s, Log DebugLevel ''waiting for accept incoming tunnel connection on %s''
                # nodelayLog s (at_SetNoDelay a) @
              [SendBinaryString strm ''ok'',
               Log ErrorLevel ''failed to send acknowledgment for token to stream %v: %v'',
               CloseSession (acceptedSession s cn)], Continue)"
    by blast
  have bad_eq: "acceptRound s idx dn a =
          (s, Log DebugLevel ''waiting for accept incoming tunnel connection on %s''
                # nodelayLog s (at_SetNoDelay a) @ [SendBinaryString strm ''error''] @
                (case at_SendBinaryString a of
                   Some err \<Rightarrow> [Log ErrorLevel ''failed to send error response to stream %v: %v'']
                 | None \<Rightarrow> []) @
                [Log ErrorLevel ''failed to establish a new session. Token mismatch: received %s, expected %s'',
                 CloseSession (acceptedSession s cn),
                 Sleep (2 * Second)], Continue)"
    if "token \<noteq> TcpMuxConfig.Token cfg"
  proof -
    from that have t': "token \<noteq> TcpMuxConfig.Token (s_config s)" by (simp add: cfg)
    show ?thesis by (rule acceptRound_mismatch [OF assms(3-8) t'])
  qed
  have bad: "token \<noteq> TcpMuxConfig.Token cfg \<longrightarrow>
        acceptRound s idx dn a =
          (s, Log DebugLevel ''waiting for accept incoming tunnel connection on %s''
                # nodelayLog s (at_SetNoDelay a) @ [SendBinaryString strm ''error''] @
                (case at_SendBinaryString a of
                   Some err \<Rightarrow> [Log ErrorLevel ''failed to send error response to stream %v: %v'']
                 | None \<Rightarrow> []) @
                [Log ErrorLevel ''failed to establish a new session. Token mismatch: received %s, expected %s'',
                 CloseSession (acceptedSession s cn),
                 Sleep (2 * Second)], Continue)
        \<and> acceptStreamConn s idx ((dn, a) # rest) =
            (fst (acceptStreamConn s idx rest),
             fst (snd (acceptRound s idx dn a)) @ fst (snd (acceptStreamConn s idx rest)),
             snd (snd (acceptStreamConn s idx rest)))"
  proof
    assume t: "token \<noteq> TcpMuxConfig.Token cfg"
    note R = bad_eq [OF t]
    show "acceptRound s idx dn a =
          (s, Log DebugLevel ''waiting for accept incoming tunnel connection on %s''
                # nodelayLog s (at_SetNoDelay a) @ [SendBinaryString strm ''error''] @
                (case at_SendBinaryString a of
                   Some err \<Rightarrow> [Log ErrorLevel ''failed to send error response to stream %v: %v'']
                 | None \<Rightarrow> []) @
                [Log ErrorLevel ''failed to establish a new session. Token mismatch: received %s, expected %s'',
                 CloseSession (acceptedSession s cn),
                 Sleep (2 * Second)], Continue)
        \<and> acceptStreamConn s idx ((dn, a) # rest) =
            (fst (acceptStreamConn s idx rest),
             fst (snd (acceptRound s idx dn a)) @ fst (snd (acceptStreamConn s idx rest)),
             snd (snd (acceptStreamConn s idx rest)))"
      using R by (simp split: prod.splits)
  qed
  have sleeps: "token \<noteq> TcpMuxConfig.Token cfg
          \<and> al_server st = s \<and> idx < length (al_loops st) \<and> idx < length (al_awake st)
          \<and> al_loops st ! idx = Accepting \<and> al_awake st ! idx \<le> t \<longrightarrow>
        loops_round st (t, idx, dn, a) =
          st\<lparr>al_awake := (al_awake st)[idx := t + 2 * Second],
             al_rounds := al_rounds st @ [(t, idx, fst (snd (acceptRound s idx dn a)))]\<rparr>
        \<and> (t' < t + 2 * Second \<longrightarrow>
             loops_round (loops_round st (t, idx, dn, a)) (t', idx, dn', a') =
               loops_round st (t, idx, dn, a))
        \<and> (j \<noteq> idx \<and> j < length (al_loops st) \<and> al_loops st ! j = Accepting
             \<and> al_awake st ! j \<le> t' \<longrightarrow>
             al_rounds (loops_round (loops_round st (t, idx, dn, a)) (t', j, dn', a')) =
               al_rounds st @ [(t, idx, fst (snd (acceptRound s idx dn a))),
                               (t', j, fst (snd (acceptRound s j dn' a')))])"
  proof
    assume h: "token \<noteq> TcpMuxConfig.Token cfg
          \<and> al_server st = s \<and> idx < length (al_loops st) \<and> idx < length (al_awake st)
          \<and> al_loops st ! idx = Accepting \<and> al_awake st ! idx \<le> t"
    then have t: "token \<noteq> TcpMuxConfig.Token cfg" and sv: "al_server st = s"
      and i1: "idx < length (al_loops st)" and i2: "idx < length (al_awake st)"
      and acc: "al_loops st ! idx = Accepting" and aw: "al_awake st ! idx \<le> t" by simp_all
    define es where "es = fst (snd (acceptRound s idx dn a))"
    have sl: "slept es = 2 * Second"
      unfolding es_def bad_eq [OF t] by (simp add: mismatch_slept del: append.simps)
    have r: "acceptRound (al_server st) idx dn a = (al_server st, es, Continue)"
      unfolding es_def sv using bad_eq [OF t] by simp
    note L = loops_round_continue [OF i1 i2 acc aw r, unfolded sl sv]
    from L show "loops_round st (t, idx, dn, a) =
          st\<lparr>al_awake := (al_awake st)[idx := t + 2 * Second],
             al_rounds := al_rounds st @ [(t, idx, fst (snd (acceptRound s idx dn a)))]\<rparr>
        \<and> (t' < t + 2 * Second \<longrightarrow>
             loops_round (loops_round st (t, idx, dn, a)) (t', idx, dn', a') =
               loops_round st (t, idx, dn, a))
        \<and> (j \<noteq> idx \<and> j < length (al_loops st) \<and> al_loops st ! j = Accepting
             \<and> al_awake st ! j \<le> t' \<longrightarrow>
             al_rounds (loops_round (loops_round st (t, idx, dn, a)) (t', j, dn', a')) =
               al_rounds st @ [(t, idx, fst (snd (acceptRound s idx dn a))),
                               (t', j, fst (snd (acceptRound s j dn' a')))])"
      unfolding es_def by blast
  qed
  have retries: "token = TcpMuxConfig.Token cfg \<and> at_SendBinaryString a \<noteq> None
          \<and> al_server st = s \<and> idx < length (al_loops st) \<and> idx < length (al_awake st)
          \<and> al_loops st ! idx = Accepting \<and> al_awake st ! idx \<le> t \<longrightarrow>
        loops_round st (t, idx, dn, a) =
          st\<lparr>al_awake := (al_awake st)[idx := t],
             al_rounds := al_rounds st @ [(t, idx, fst (snd (acceptRound s idx dn a)))]\<rparr>"
  proof
    assume h: "token = TcpMuxConfig.Token cfg \<and> at_SendBinaryString a \<noteq> None
          \<and> al_server st = s \<and> idx < length (al_loops st) \<and> idx < length (al_awake st)
          \<and> al_loops st ! idx = Accepting \<and> al_awake st ! idx \<le> t"
    then have t: "token = TcpMuxConfig.Token cfg \<and> at_SendBinaryString a \<noteq> None"
      and sv: "al_server st = s"
      and i1: "idx < length (al_loops st)" and i2: "idx < length (al_awake st)"
      and acc: "al_loops st ! idx = Accepting" and aw: "al_awake st ! idx \<le> t" by simp_all
    define es where "es = fst (snd (acceptRound s idx dn a))"
    have sl: "slept es = 0"
      unfolding es_def nack_eq [OF t] by (simp add: ack_fails_slept del: append.simps)
    have r: "acceptRound (al_server st) idx dn a = (al_server st, es, Continue)"
      unfolding es_def sv using nack_eq [OF t] by simp
    from loops_round_continue(1) [OF i1 i2 acc aw r, unfolded sl]
    show "loops_round st (t, idx, dn, a) =
          st\<lparr>al_awake := (al_awake st)[idx := t],
             al_rounds := al_rounds st @ [(t, idx, fst (snd (acceptRound s idx dn a)))]\<rparr>"
      unfolding es_def by simp
  qed
  show ?thesis using ok nack bad sleeps retries by blast
qed

subsection \<open>The set-up of the session pool\<close>

lemma filter_update_length:
  "i < length xs \<Longrightarrow>
     length (filter P (xs[i := y])) + (if P (xs ! i) then 1 else 0) =
     length (filter P xs) + (if P y then 1 else 0)"
proof (induction xs arbitrary: i)
  case Nil
  then show ?case by simp
next
  case (Cons x xs)
  show ?case
  proof (cases i)
    case 0
    then show ?thesis by simp
  next
    case (Suc j)
    with Cons.prems have "j < length xs" by simp
    from Cons.IH [OF this] Suc show ?thesis by simp
  qed
qed

lemma setup_inv_start:
  assumes "mux_server cfg s"
  shows "setup_inv cfg (smuxConfig s) [] (setup_start s)"
proof -
  from mux_server_fields [OF assms]
  have f: "s_config s = cfg" "length (s_smuxSession s) = nat (TcpMuxConfig.MuxSession cfg)"
    by blast+
  have "count_list (map (\<lambda>idx. Go (go_acceptStreamConn idx)) xs) WgDone = 0" for xs :: "nat list"
    by (induction xs) simp_all
  with f show ?thesis by (simp add: setup_inv_def setup_start_def)
qed

lemma smuxConfig_cong: "s_config s = s_config s' \<Longrightarrow> smuxConfig s = smuxConfig s'"
  by (simp add: smuxConfig_def)

lemma setup_inv_round:
  assumes inv: "setup_inv cfg sc schedule st" and sc: "sc = smuxConfig (su_server st)"
  shows "setup_inv cfg sc (schedule @ [ev]) (setup_round st ev)
         \<and> smuxConfig (su_server (setup_round st ev)) = sc"
proof -
  obtain idx dn a where ev: "ev = (idx, dn, a)" by (cases ev)
  let ?n = "nat (TcpMuxConfig.MuxSession cfg)"
  let ?s = "su_server st"
  from inv have cfg: "s_config ?s = cfg" and ll: "length (su_loops st) = ?n"
    and lp: "length (s_smuxSession ?s) = ?n"
    and wg: "su_wg st = length (filter (\<lambda>x. x \<noteq> Serving) (su_loops st))"
    and dn_count: "count_list (su_effects st) WgDone = length (filter (\<lambda>x. x = Serving) (su_loops st))"
    and slots: "\<forall>i < ?n. su_loops st ! i = Serving \<longrightarrow>
            (\<exists>a cn. (i, False, a) \<in> set schedule \<and> at_Accept a = Inr cn
               \<and> at_ReceiveBinaryString a = Inr (TcpMuxConfig.Token cfg)
               \<and> at_SendBinaryString a = None
               \<and> s_smuxSession ?s ! i =
                   Some \<lparr> sess_conn = cn, sess_role = SmuxClient, sess_config = sc \<rparr>)"
    by (simp_all add: setup_inv_def)
  show ?thesis
  proof (cases "idx < length (su_loops st) \<and> su_loops st ! idx = Accepting")
    case False
    then have same: "setup_round st ev = st" by (auto simp: setup_round_def ev)
    have "setup_inv cfg sc (schedule @ [ev]) st"
      using inv by (fastforce simp: setup_inv_def)
    with same sc show ?thesis by simp
  next
    case run: True
    then have idx: "idx < ?n" and acc: "su_loops st ! idx = Accepting" using ll by auto
    show ?thesis
    proof (cases "installs ?s idx dn a")
      case True
      note R = acceptRound_installs [OF True]
      from True obtain cn where cn: "at_Accept a = Inr cn" and nd: "\<not> dn"
        and tok: "at_ReceiveBinaryString a = Inr (TcpMuxConfig.Token cfg)"
        and snd_ok: "at_SendBinaryString a = None"
        by (cases "at_Accept a") (auto simp: installs_def cfg)
      let ?sess = "\<lparr> sess_conn = cn, sess_role = SmuxClient, sess_config = sc \<rparr>"
      have sess: "acceptedSession ?s (projr (at_Accept a)) = ?sess"
        by (simp add: acceptedSession_def cn sc)
      let ?st' = "setup_round st ev"
      have srv: "su_server ?st' = ?s\<lparr>s_smuxSession := (s_smuxSession ?s)[idx := Some ?sess]\<rparr>"
        and loops: "su_loops ?st' = (su_loops st)[idx := Serving]"
        and wg': "su_wg ?st' = su_wg st - 1"
        and eff: "su_effects ?st' = su_effects st @
           (Log DebugLevel ''waiting for accept incoming tunnel connection on %s''
             # nodelayLog ?s (at_SetNoDelay a) @
            [SendBinaryString (projr (at_AcceptStream a)) ''ok'',
             Log InfoLevel ''successfully established SMUX session with ID %d for connection %s'',
             WgDone])"
        using run R sess by (simp_all add: setup_round_def ev)
      have nl: "count_list (nodelayLog ?s (at_SetNoDelay a)) WgDone = 0"
        by (simp add: nodelayLog_def split: option.split)
      from filter_update_length [of idx "su_loops st" "\<lambda>x. x \<noteq> Serving" Serving] run acc
      have c1: "length (filter (\<lambda>x. x \<noteq> Serving) ((su_loops st)[idx := Serving])) + 1 =
                length (filter (\<lambda>x. x \<noteq> Serving) (su_loops st))" by simp
      from filter_update_length [of idx "su_loops st" "\<lambda>x. x = Serving" Serving] run acc
      have c2: "length (filter (\<lambda>x. x = Serving) ((su_loops st)[idx := Serving])) =
                length (filter (\<lambda>x. x = Serving) (su_loops st)) + 1" by simp
      have slots': "\<forall>i < ?n. su_loops ?st' ! i = Serving \<longrightarrow>
            (\<exists>a cn. (i, False, a) \<in> set (schedule @ [ev]) \<and> at_Accept a = Inr cn
               \<and> at_ReceiveBinaryString a = Inr (TcpMuxConfig.Token cfg)
               \<and> at_SendBinaryString a = None
               \<and> s_smuxSession (su_server ?st') ! i =
                   Some \<lparr> sess_conn = cn, sess_role = SmuxClient, sess_config = sc \<rparr>)"
      proof (intro allI impI)
        fix i assume i: "i < ?n" and sv: "su_loops ?st' ! i = Serving"
        show "\<exists>a cn. (i, False, a) \<in> set (schedule @ [ev]) \<and> at_Accept a = Inr cn
               \<and> at_ReceiveBinaryString a = Inr (TcpMuxConfig.Token cfg)
               \<and> at_SendBinaryString a = None
               \<and> s_smuxSession (su_server ?st') ! i =
                   Some \<lparr> sess_conn = cn, sess_role = SmuxClient, sess_config = sc \<rparr>"
        proof (cases "i = idx")
          case True
          have "(i, False, a) \<in> set (schedule @ [ev])" using True ev nd by simp
          moreover have "s_smuxSession (su_server ?st') ! i = Some ?sess"
            using True srv idx lp by simp
          ultimately show ?thesis using cn tok snd_ok by blast
        next
          case False
          with sv loops have "su_loops st ! i = Serving" by simp
          with slots i obtain a' cn' where
            "(i, False, a') \<in> set schedule" "at_Accept a' = Inr cn'"
            "at_ReceiveBinaryString a' = Inr (TcpMuxConfig.Token cfg)"
            "at_SendBinaryString a' = None"
            "s_smuxSession ?s ! i = Some \<lparr> sess_conn = cn', sess_role = SmuxClient, sess_config = sc \<rparr>"
            by blast
          moreover have "s_smuxSession (su_server ?st') ! i = s_smuxSession ?s ! i"
            using False srv by simp
          ultimately show ?thesis by auto
        qed
      qed
      have "setup_inv cfg sc (schedule @ [ev]) ?st'"
        unfolding setup_inv_def
        using srv loops wg' eff cfg ll lp wg dn_count c1 c2 nl slots'
        by simp
      moreover have "smuxConfig (su_server ?st') = sc"
        using srv sc by (simp add: smuxConfig_def)
      ultimately show ?thesis by simp
    next
      case False
      note K = acceptRound_keeps [OF False]
      let ?st' = "setup_round st ev"
      obtain s' es r where R: "acceptRound ?s idx dn a = (s', es, r)"
        by (cases "acceptRound ?s idx dn a")
      with K have s': "s' = ?s" and r: "r \<noteq> Established" and es: "WgDone \<notin> set es" by simp_all
      let ?new = "case r of Continue \<Rightarrow> Accepting | Established \<Rightarrow> Serving | Stopped \<Rightarrow> Gone"
      have new: "?new \<noteq> Serving" using r by (cases r) simp_all
      have srv: "su_server ?st' = ?s" and loops: "su_loops ?st' = (su_loops st)[idx := ?new]"
        and wg': "su_wg ?st' = su_wg st" and eff: "su_effects ?st' = su_effects st @ es"
        using run R s' r by (simp_all add: setup_round_def ev)
      from filter_update_length [of idx "su_loops st" "\<lambda>x. x \<noteq> Serving" ?new] run acc new
      have c1: "length (filter (\<lambda>x. x \<noteq> Serving) ((su_loops st)[idx := ?new])) =
                length (filter (\<lambda>x. x \<noteq> Serving) (su_loops st))" by simp
      from filter_update_length [of idx "su_loops st" "\<lambda>x. x = Serving" ?new] run acc new
      have c2: "length (filter (\<lambda>x. x = Serving) ((su_loops st)[idx := ?new])) =
                length (filter (\<lambda>x. x = Serving) (su_loops st))" by simp
      have c3: "count_list es WgDone = 0" using es by (simp add: count_list_0_iff)
      have slots': "\<forall>i < ?n. su_loops ?st' ! i = Serving \<longrightarrow>
            (\<exists>a cn. (i, False, a) \<in> set (schedule @ [ev]) \<and> at_Accept a = Inr cn
               \<and> at_ReceiveBinaryString a = Inr (TcpMuxConfig.Token cfg)
               \<and> at_SendBinaryString a = None
               \<and> s_smuxSession (su_server ?st') ! i =
                   Some \<lparr> sess_conn = cn, sess_role = SmuxClient, sess_config = sc \<rparr>)"
      proof (intro allI impI)
        fix i assume i: "i < ?n" and sv: "su_loops ?st' ! i = Serving"
        have "i \<noteq> idx"
        proof
          assume "i = idx"
          with sv loops run have "?new = Serving" by simp
          with new show False by simp
        qed
        with sv loops have "su_loops st ! i = Serving" by simp
        with slots i obtain a' cn' where
            "(i, False, a') \<in> set schedule" "at_Accept a' = Inr cn'"
            "at_ReceiveBinaryString a' = Inr (TcpMuxConfig.Token cfg)"
            "at_SendBinaryString a' = None"
            "s_smuxSession ?s ! i = Some \<lparr> sess_conn = cn', sess_role = SmuxClient, sess_config = sc \<rparr>"
          by blast
        then show "\<exists>a cn. (i, False, a) \<in> set (schedule @ [ev]) \<and> at_Accept a = Inr cn
               \<and> at_ReceiveBinaryString a = Inr (TcpMuxConfig.Token cfg)
               \<and> at_SendBinaryString a = None
               \<and> s_smuxSession (su_server ?st') ! i =
                   Some \<lparr> sess_conn = cn, sess_role = SmuxClient, sess_config = sc \<rparr>"
          using srv by auto
      qed
      have "setup_inv cfg sc (schedule @ [ev]) ?st'"
        unfolding setup_inv_def
        using srv loops wg' eff cfg ll lp wg dn_count c1 c2 c3 slots'
        by simp
      moreover have "smuxConfig (su_server ?st') = sc" using srv sc by simp
      ultimately show ?thesis by simp
    qed
  qed
qed

lemma setup_inv_foldl:
  assumes "mux_server cfg s"
  shows "setup_inv cfg (smuxConfig s) schedule (foldl setup_round (setup_start s) schedule)
         \<and> smuxConfig (su_server (foldl setup_round (setup_start s) schedule)) = smuxConfig s"
proof (induction schedule rule: rev_induct)
  case Nil
  show ?case using setup_inv_start [OF assms] by (simp add: setup_start_def)
next
  case (snoc ev schedule)
  let ?st = "foldl setup_round (setup_start s) schedule"
  from snoc have inv: "setup_inv cfg (smuxConfig s) schedule ?st"
    and sc: "smuxConfig (su_server ?st) = smuxConfig s" by blast+
  have step: "foldl setup_round (setup_start s) (schedule @ [ev]) = setup_round ?st ev" by simp
  from setup_inv_round [OF inv sc [symmetric], of ev] show ?case
    unfolding step .
qed

lemma acceptRound_fails:
  assumes "\<not> installs s idx False a" and "idx < length (s_smuxSession s)"
  shows "fst (acceptRound s idx False a) = s
     \<and> snd (snd (acceptRound s idx False a)) = Continue
     \<and> (at_Accept a = Inr cn \<longrightarrow>
          (if at_isTCP a \<and> at_smux a = None then CloseSession (acceptedSession s cn) else Close cn)
            \<in> set (fst (snd (acceptRound s idx False a))))"
proof (cases "at_Accept a")
  case (Inl e)
  then show ?thesis by (simp add: acceptRound_def)
next
  case acc: (Inr c)
  show ?thesis
  proof (cases "at_isTCP a")
    case False
    with acc show ?thesis by (simp add: acceptRound_def)
  next
    case tcp: True
    show ?thesis
    proof (cases "at_smux a")
      case (Some e)
      with acc tcp show ?thesis by (simp add: acceptRound_def Let_def)
    next
      case smux: None
      show ?thesis
      proof (cases "at_AcceptStream a")
        case (Inl e)
        with acc tcp smux show ?thesis by (simp add: acceptRound_def Let_def)
      next
        case st: (Inr strm)
        show ?thesis
        proof (cases "at_ReceiveBinaryString a")
          case (Inl e)
          with acc tcp smux st show ?thesis by (simp add: acceptRound_def Let_def)
        next
          case tok: (Inr token)
          show ?thesis
          proof (cases "token = TcpMuxConfig.Token (s_config s)")
            case False
            with acc tcp smux st tok show ?thesis by (simp add: acceptRound_def Let_def)
          next
            case match: True
            show ?thesis
            proof (cases "at_SendBinaryString a")
              case (Some e)
              with acc tcp smux st tok match show ?thesis by (simp add: acceptRound_def Let_def)
            next
              case None
              with assms acc tcp smux st tok match show ?thesis by (simp add: installs_def)
            qed
          qed
        qed
      qed
    qed
  qed
qed

lemma acceptStreamConn_goes_on:
  assumes "snd (snd (acceptRound s idx dn a)) = Continue"
  shows "acceptStreamConn s idx ((dn, a) # rest) =
     (fst (acceptStreamConn (fst (acceptRound s idx dn a)) idx rest),
      fst (snd (acceptRound s idx dn a)) @
        fst (snd (acceptStreamConn (fst (acceptRound s idx dn a)) idx rest)),
      snd (snd (acceptStreamConn (fst (acceptRound s idx dn a)) idx rest)))"
  using assms by (cases "acceptRound s idx dn a") (simp split: prod.splits)

lemma setup_round_effects: "prefix (su_effects st) (su_effects (setup_round st ev))"
  by (cases ev) (simp add: setup_round_def split: prod.splits)

lemma setup_foldl_effects: "prefix (su_effects st) (su_effects (foldl setup_round st schedule))"
proof (induction schedule rule: rev_induct)
  case Nil
  show ?case by simp
next
  case (snoc ev schedule)
  have "prefix (su_effects (foldl setup_round st schedule))
          (su_effects (setup_round (foldl setup_round st schedule) ev))"
    by (rule setup_round_effects)
  with snoc show ?case by simp
qed

lemma prefix_take: "prefix xs ys \<Longrightarrow> take (length xs) ys = xs"
  by (auto simp: prefix_def)

text \<open>
  Claim C5, as the code has it. \<open>TunnelListener\<close> starts \<open>MuxSession\<close> accept loops, one
  per index, on its listener. Each loop wraps the TCP socket it accepts with
  \<open>smux.Client\<close>, so in a client-side SMUX session, and reads the token from the
  session's first stream. In a round in which every call succeeds and the token is the
  configured one, the loop installs the session into the pool slot of its own index and
  calls \<open>wg.Done\<close>. In every other round (its slot being in the pool) the server stays
  as it was, \<open>wg.Done\<close> is not called, the accepted socket is closed, or its session
  once that was made, and the loop goes on to accept another socket. So once the set-up is over (\<open>wg.Wait()\<close> has
  returned), for a reachable server and whatever the schedule of the rounds, every slot
  \<open>i\<close> below \<open>MuxSession\<close> holds the client-side session of a socket that the loop \<open>i\<close>
  accepted, whose first stream carried the configured token and was acknowledged; the
  pool has \<open>MuxSession\<close> slots; and \<open>wg.Done\<close> was called \<open>MuxSession\<close> times, once per
  installed session.
\<close>

theorem C5_setup_fills_pool:
  assumes "mux_server cfg s" and "TunnelListener s None schedule = (st, True)"
    and "i < nat (TcpMuxConfig.MuxSession cfg)"
  shows
    "(\<exists>a cn. (i, False, a) \<in> set schedule \<and> at_Accept a = Inr cn
        \<and> at_ReceiveBinaryString a = Inr (TcpMuxConfig.Token cfg)
        \<and> at_SendBinaryString a = None
        \<and> s_smuxSession (su_server st) ! i =
            Some \<lparr> sess_conn = cn, sess_role = SmuxClient, sess_config = smuxConfig s \<rparr>)
     \<and> length (s_smuxSession (su_server st)) = nat (TcpMuxConfig.MuxSession cfg)
     \<and> count_list (su_effects st) WgDone = nat (TcpMuxConfig.MuxSession cfg)
     \<and> take (Suc (nat (TcpMuxConfig.MuxSession cfg))) (su_effects st) =
          Log InfoLevel ''server started successfully, listening on address: %s'' #
          map (\<lambda>idx. Go (go_acceptStreamConn idx)) [0 ..< nat (TcpMuxConfig.MuxSession cfg)]
     \<and> acceptedSession s' cn' =
          \<lparr> sess_conn = cn', sess_role = SmuxClient, sess_config = smuxConfig s' \<rparr>
     \<and> (installs s' idx' False a' \<and> at_Accept a' = Inr cn' \<and> at_AcceptStream a' = Inr strm' \<longrightarrow>
          acceptRound s' idx' False a' =
            (s'\<lparr>s_smuxSession := (s_smuxSession s')[idx' := Some (acceptedSession s' cn')]\<rparr>,
             Log DebugLevel ''waiting for accept incoming tunnel connection on %s''
               # nodelayLog s' (at_SetNoDelay a') @
             [SendBinaryString strm' ''ok'',
              Log InfoLevel ''successfully established SMUX session with ID %d for connection %s'',
              WgDone],
             Established))
     \<and> (\<not> installs s' idx' False a' \<and> idx' < length (s_smuxSession s') \<longrightarrow>
          fst (acceptRound s' idx' False a') = s'
          \<and> snd (snd (acceptRound s' idx' False a')) = Continue
          \<and> WgDone \<notin> set (fst (snd (acceptRound s' idx' False a')))
          \<and> (at_Accept a' = Inr cn' \<longrightarrow>
               (if at_isTCP a' \<and> at_smux a' = None then CloseSession (acceptedSession s' cn')
                else Close cn')
                 \<in> set (fst (snd (acceptRound s' idx' False a'))))
          \<and> acceptStreamConn s' idx' ((False, a') # rest) =
               (fst (acceptStreamConn s' idx' rest),
                fst (snd (acceptRound s' idx' False a')) @ fst (snd (acceptStreamConn s' idx' rest)),
                snd (snd (acceptStreamConn s' idx' rest))))"
proof -
  let ?n = "nat (TcpMuxConfig.MuxSession cfg)"
  let ?f = "foldl setup_round (setup_start s) schedule"
  from mux_server_fields [OF assms(1)] have cfg: "s_config s = cfg" by blast
  from assms(2) have wg0: "su_wg ?f = 0"
    and st: "st = ?f\<lparr>su_effects := su_effects ?f @ [Go go_portConfigReader] @
                     (if TcpMuxConfig.Sniffing (s_config s)
                      then [Go (go_Monitor (s_usageMonitor (su_server ?f)))] else [])\<rparr>"
    by (auto simp: TunnelListener_def Let_def split: if_splits)
  from setup_inv_foldl [OF assms(1), of schedule]
  have inv: "setup_inv cfg (smuxConfig s) schedule ?f" by blast
  then have ll: "length (su_loops ?f) = ?n"
    and lp: "length (s_smuxSession (su_server ?f)) = ?n"
    and wg: "su_wg ?f = length (filter (\<lambda>x. x \<noteq> Serving) (su_loops ?f))"
    and dn_count: "count_list (su_effects ?f) WgDone = length (filter (\<lambda>x. x = Serving) (su_loops ?f))"
    and slots: "\<forall>i < ?n. su_loops ?f ! i = Serving \<longrightarrow>
            (\<exists>a cn. (i, False, a) \<in> set schedule \<and> at_Accept a = Inr cn
               \<and> at_ReceiveBinaryString a = Inr (TcpMuxConfig.Token cfg)
               \<and> at_SendBinaryString a = None
               \<and> s_smuxSession (su_server ?f) ! i =
                   Some \<lparr> sess_conn = cn, sess_role = SmuxClient, sess_config = smuxConfig s \<rparr>)"
    by (simp_all add: setup_inv_def)
  from wg wg0 have "filter (\<lambda>x. x \<noteq> Serving) (su_loops ?f) = []" by simp
  then have all: "\<forall>x \<in> set (su_loops ?f). x = Serving" by (simp add: filter_empty_conv)
  then have "su_loops ?f ! i = Serving" using assms(3) ll by simp
  with slots assms(3) have slot: "\<exists>a cn. (i, False, a) \<in> set schedule \<and> at_Accept a = Inr cn
               \<and> at_ReceiveBinaryString a = Inr (TcpMuxConfig.Token cfg)
               \<and> at_SendBinaryString a = None
               \<and> s_smuxSession (su_server ?f) ! i =
                   Some \<lparr> sess_conn = cn, sess_role = SmuxClient, sess_config = smuxConfig s \<rparr>"
    by blast
  from all have "filter (\<lambda>x. x = Serving) (su_loops ?f) = su_loops ?f" by (simp add: filter_id_conv)
  with dn_count ll have cnt: "count_list (su_effects ?f) WgDone = ?n" by simp
  have pool: "(\<exists>a cn. (i, False, a) \<in> set schedule \<and> at_Accept a = Inr cn
        \<and> at_ReceiveBinaryString a = Inr (TcpMuxConfig.Token cfg)
        \<and> at_SendBinaryString a = None
        \<and> s_smuxSession (su_server st) ! i =
            Some \<lparr> sess_conn = cn, sess_role = SmuxClient, sess_config = smuxConfig s \<rparr>)
     \<and> length (s_smuxSession (su_server st)) = nat (TcpMuxConfig.MuxSession cfg)
     \<and> count_list (su_effects st) WgDone = nat (TcpMuxConfig.MuxSession cfg)"
    using slot lp cnt by (simp add: st)
  define start where "start = Log InfoLevel ''server started successfully, listening on address: %s'' #
          map (\<lambda>idx. Go (go_acceptStreamConn idx)) [0 ..< ?n]"
  have s0: "su_effects (setup_start s) = start" by (simp add: setup_start_def cfg start_def)
  have "prefix start (su_effects ?f)" using setup_foldl_effects [of "setup_start s" schedule] s0 by simp
  then have "prefix start (su_effects st)" by (simp add: st prefix_def) (metis append.assoc)
  from prefix_take [OF this] have "take (Suc ?n) (su_effects st) = start" by (simp add: start_def)
  then have loops: "take (Suc (nat (TcpMuxConfig.MuxSession cfg))) (su_effects st) =
          Log InfoLevel ''server started successfully, listening on address: %s'' #
          map (\<lambda>idx. Go (go_acceptStreamConn idx)) [0 ..< nat (TcpMuxConfig.MuxSession cfg)]"
    by (simp add: start_def)
  have wrap: "acceptedSession s' cn' =
          \<lparr> sess_conn = cn', sess_role = SmuxClient, sess_config = smuxConfig s' \<rparr>"
    by (simp add: acceptedSession_def)
  have inst: "installs s' idx' False a' \<and> at_Accept a' = Inr cn' \<and> at_AcceptStream a' = Inr strm' \<longrightarrow>
          acceptRound s' idx' False a' =
            (s'\<lparr>s_smuxSession := (s_smuxSession s')[idx' := Some (acceptedSession s' cn')]\<rparr>,
             Log DebugLevel ''waiting for accept incoming tunnel connection on %s''
               # nodelayLog s' (at_SetNoDelay a') @
             [SendBinaryString strm' ''ok'',
              Log InfoLevel ''successfully established SMUX session with ID %d for connection %s'',
              WgDone],
             Established)"
    using acceptRound_installs [of s' idx' False a'] by auto
  have fails: "\<not> installs s' idx' False a' \<and> idx' < length (s_smuxSession s') \<longrightarrow>
          fst (acceptRound s' idx' False a') = s'
          \<and> snd (snd (acceptRound s' idx' False a')) = Continue
          \<and> WgDone \<notin> set (fst (snd (acceptRound s' idx' False a')))
          \<and> (at_Accept a' = Inr cn' \<longrightarrow>
               (if at_isTCP a' \<and> at_smux a' = None then CloseSession (acceptedSession s' cn')
                else Close cn')
                 \<in> set (fst (snd (acceptRound s' idx' False a'))))
          \<and> acceptStreamConn s' idx' ((False, a') # rest) =
               (fst (acceptStreamConn s' idx' rest),
                fst (snd (acceptRound s' idx' False a')) @ fst (snd (acceptStreamConn s' idx' rest)),
                snd (snd (acceptStreamConn s' idx' rest)))"
  proof
    assume a: "\<not> installs s' idx' False a' \<and> idx' < length (s_smuxSession s')"
    then have n: "\<not> installs s' idx' False a'" and b: "idx' < length (s_smuxSession s')" by simp_all
    note F = acceptRound_fails [OF n b, of cn'] acceptRound_keeps [OF n]
    then have c: "snd (snd (acceptRound s' idx' False a')) = Continue"
      and k: "fst (acceptRound s' idx' False a') = s'" by blast+
    from acceptStreamConn_goes_on [OF c, of rest] k
    have "acceptStreamConn s' idx' ((False, a') # rest) =
               (fst (acceptStreamConn s' idx' rest),
                fst (snd (acceptRound s' idx' False a')) @ fst (snd (acceptStreamConn s' idx' rest)),
                snd (snd (acceptStreamConn s' idx' rest)))"
      by (simp del: acceptStreamConn.simps)
    with F show "fst (acceptRound s' idx' False a') = s'
          \<and> snd (snd (acceptRound s' idx' False a')) = Continue
          \<and> WgDone \<notin> set (fst (snd (acceptRound s' idx' False a')))
          \<and> (at_Accept a' = Inr cn' \<longrightarrow>
               (if at_isTCP a' \<and> at_smux a' = None then CloseSession (acceptedSession s' cn')
                else Close cn')
                 \<in> set (fst (snd (acceptRound s' idx' False a'))))
          \<and> acceptStreamConn s' idx' ((False, a') # rest) =
               (fst (acceptStreamConn s' idx' rest),
                fst (snd (acceptRound s' idx' False a')) @ fst (snd (acceptStreamConn s' idx' rest)),
                snd (snd (acceptStreamConn s' idx' rest)))"
      by blast
  qed
  from pool loops wrap inst fails show ?thesis by blast
qed

lemma scenario_server_reachable: "mux_server scenario_TcpMuxConfig scenario_server"
  by (rule mux_server.mux_new [OF scenario_server_new])

lemma scenario_round_wrong:
  "acceptRound scenario_server 0 False (scenario_attempt 5 ''wrong'') =
     (scenario_server,
      [Log DebugLevel ''waiting for accept incoming tunnel connection on %s'',
       SendBinaryString 5 ''error'',
       Log ErrorLevel ''failed to establish a new session. Token mismatch: received %s, expected %s'',
       CloseSession (acceptedSession scenario_server 5),
       Sleep (2 * Second)], Continue)"
proof -
  have "''wrong'' \<noteq> TcpMuxConfig.Token (s_config scenario_server)"
    by (simp add: scenario_server_def scenario_TcpMuxConfig_def)
  from acceptRound_mismatch [where a = "scenario_attempt 5 ''wrong''" and s = scenario_server
      and dn = False and cn = 5 and strm = 5 and token = "''wrong''" and idx = 0, OF _ _ _ _ _ _ this]
  show ?thesis
    by (simp add: scenario_attempt_def nodelayLog_def scenario_server_def scenario_TcpMuxConfig_def)
qed

lemma scenario_round_right:
  assumes "s_config s = scenario_TcpMuxConfig" and "idx < length (s_smuxSession s)"
  shows "acceptRound s idx False (scenario_attempt cn ''sahmadiut'') =
     (s\<lparr>s_smuxSession := (s_smuxSession s)[idx := Some (acceptedSession s cn)]\<rparr>,
      [Log DebugLevel ''waiting for accept incoming tunnel connection on %s'',
       SendBinaryString cn ''ok'',
       Log InfoLevel ''successfully established SMUX session with ID %d for connection %s'',
       WgDone], Established)"
proof -
  have "installs s idx False (scenario_attempt cn ''sahmadiut'')"
    using assms by (simp add: installs_def scenario_attempt_def scenario_TcpMuxConfig_def)
  from acceptRound_installs [OF this] show ?thesis
    using assms(1) by (simp add: scenario_attempt_def nodelayLog_def scenario_TcpMuxConfig_def)
qed

lemma scenario_setup:
  "snd (TunnelListener scenario_server None scenario_schedule) = True
   \<and> s_smuxSession (su_server (fst (TunnelListener scenario_server None scenario_schedule))) =
       [Some \<lparr> sess_conn = 7, sess_role = SmuxClient, sess_config = smuxConfig scenario_server \<rparr>,
        Some \<lparr> sess_conn = 6, sess_role = SmuxClient, sess_config = smuxConfig scenario_server \<rparr>]"
proof -
  let ?s0 = scenario_server
  let ?st0 = "setup_start ?s0"
  have st0: "su_server ?st0 = ?s0" "su_wg ?st0 = 2" "su_loops ?st0 = [Accepting, Accepting]"
    by (simp_all add: setup_start_def scenario_server_def scenario_TcpMuxConfig_def numeral_2_eq_2)
  let ?st1 = "setup_round ?st0 (0, False, scenario_attempt 5 ''wrong'')"
  have st1: "su_server ?st1 = ?s0" "su_wg ?st1 = 2" "su_loops ?st1 = [Accepting, Accepting]"
    using st0 scenario_round_wrong by (simp_all add: setup_round_def)
  let ?s2 = "?s0\<lparr>s_smuxSession := [None, Some (acceptedSession ?s0 6)]\<rparr>"
  let ?st2 = "setup_round ?st1 (1, False, scenario_attempt 6 ''sahmadiut'')"
  have r2: "acceptRound ?s0 1 False (scenario_attempt 6 ''sahmadiut'') =
     (?s2,
      [Log DebugLevel ''waiting for accept incoming tunnel connection on %s'',
       SendBinaryString 6 ''ok'',
       Log InfoLevel ''successfully established SMUX session with ID %d for connection %s'',
       WgDone], Established)"
    using scenario_round_right [of ?s0 1 6] by (simp add: scenario_server_def)
  have st2: "su_server ?st2 = ?s2" "su_wg ?st2 = 1" "su_loops ?st2 = [Accepting, Serving]"
    using st1 r2 by (simp_all add: setup_round_def)
  let ?s3 = "?s0\<lparr>s_smuxSession := [Some (acceptedSession ?s0 7), Some (acceptedSession ?s0 6)]\<rparr>"
  let ?st3 = "setup_round ?st2 (0, False, scenario_attempt 7 ''sahmadiut'')"
  have r3: "acceptRound ?s2 0 False (scenario_attempt 7 ''sahmadiut'') =
     (?s3,
      [Log DebugLevel ''waiting for accept incoming tunnel connection on %s'',
       SendBinaryString 7 ''ok'',
       Log InfoLevel ''successfully established SMUX session with ID %d for connection %s'',
       WgDone], Established)"
    using scenario_round_right [of ?s2 0 7]
    by (simp add: scenario_server_def acceptedSession_def smuxConfig_def)
  have st3: "su_server ?st3 = ?s3" "su_wg ?st3 = 0"
    using st2 r3 by (simp_all add: setup_round_def)
  have f: "foldl setup_round ?st0 scenario_schedule = ?st3"
    by (simp add: scenario_schedule_def)
  show ?thesis
    unfolding TunnelListener_def using f st3
    by (simp add: Let_def acceptedSession_def)
qed

text \<open>
  Claim C5 as stated has the server accept exactly \<open>MuxSession\<close> sockets and wrap each in
  a server-side session. With \<open>MuxSession = 2\<close> and the schedule of the scenario the
  set-up completes after three sockets were accepted (the first sent a wrong token), and
  both installed sessions are client-side ones.
\<close>

theorem C5_more_sockets_client_side_counterexample:
  "snd (TunnelListener scenario_server None scenario_schedule) = True
   \<and> TcpMuxConfig.MuxSession (s_config scenario_server) = 2
   \<and> map (\<lambda>ev. at_Accept (snd (snd ev))) scenario_schedule = [Inr 5, Inr 6, Inr 7]
   \<and> map (map_option sess_role)
        (s_smuxSession (su_server (fst (TunnelListener scenario_server None scenario_schedule)))) =
       [Some SmuxClient, Some SmuxClient]
   \<and> SmuxClient \<noteq> SmuxServer"
  using scenario_setup
  by (simp add: scenario_schedule_def scenario_attempt_def scenario_server_def
      scenario_TcpMuxConfig_def)

theorem C5_setup_fills_pool_witness:
  "s_smuxSession (su_server (fst (TunnelListener scenario_server None scenario_schedule))) ! 0 =
     Some \<lparr> sess_conn = 7, sess_role = SmuxClient, sess_config = smuxConfig scenario_server \<rparr>
   \<and> length (s_smuxSession (su_server (fst (TunnelListener scenario_server None scenario_schedule)))) = 2
   \<and> count_list (su_effects (fst (TunnelListener scenario_server None scenario_schedule))) WgDone = 2
   \<and> take 3 (su_effects (fst (TunnelListener scenario_server None scenario_schedule))) =
       [Log InfoLevel ''server started successfully, listening on address: %s'',
        Go (go_acceptStreamConn 0), Go (go_acceptStreamConn 1)]
   \<and> fst (acceptRound scenario_server 0 False (scenario_attempt 5 ''wrong'')) = scenario_server
   \<and> snd (snd (acceptRound scenario_server 0 False (scenario_attempt 5 ''wrong''))) = Continue
   \<and> CloseSession (acceptedSession scenario_server 5)
       \<in> set (fst (snd (acceptRound scenario_server 0 False (scenario_attempt 5 ''wrong''))))"
proof -
  have run: "TunnelListener scenario_server None scenario_schedule =
      (fst (TunnelListener scenario_server None scenario_schedule), True)"
    using scenario_setup by (simp add: prod_eq_iff)
  have i: "(0 :: nat) < nat (TcpMuxConfig.MuxSession scenario_TcpMuxConfig)"
    by (simp add: scenario_TcpMuxConfig_def)
  have n: "nat (TcpMuxConfig.MuxSession scenario_TcpMuxConfig) = 2"
    by (simp add: scenario_TcpMuxConfig_def)
  have no: "\<not> installs scenario_server 0 False (scenario_attempt 5 ''wrong'')
      \<and> 0 < length (s_smuxSession scenario_server)"
    by (simp add: installs_def scenario_attempt_def scenario_server_def scenario_TcpMuxConfig_def)
  have obs: "at_Accept (scenario_attempt 5 ''wrong'') = Inr 5"
    "at_isTCP (scenario_attempt 5 ''wrong'') \<and> at_smux (scenario_attempt 5 ''wrong'') = None"
    by (simp_all add: scenario_attempt_def)
  note C = C5_setup_fills_pool [OF scenario_server_reachable run i, where s' = scenario_server
      and idx' = 0 and a' = "scenario_attempt 5 ''wrong''" and cn' = 5 and rest = "[]"]
  from C scenario_setup
  have a: "s_smuxSession (su_server (fst (TunnelListener scenario_server None scenario_schedule))) ! 0 =
     Some \<lparr> sess_conn = 7, sess_role = SmuxClient, sess_config = smuxConfig scenario_server \<rparr>
   \<and> length (s_smuxSession (su_server (fst (TunnelListener scenario_server None scenario_schedule)))) = 2
   \<and> count_list (su_effects (fst (TunnelListener scenario_server None scenario_schedule))) WgDone = 2"
    by (simp add: scenario_TcpMuxConfig_def)
  from C have "take (Suc (nat (TcpMuxConfig.MuxSession scenario_TcpMuxConfig)))
        (su_effects (fst (TunnelListener scenario_server None scenario_schedule))) =
          Log InfoLevel ''server started successfully, listening on address: %s'' #
          map (\<lambda>idx. Go (go_acceptStreamConn idx)) [0 ..< nat (TcpMuxConfig.MuxSession scenario_TcpMuxConfig)]"
    by blast
  then have b: "take 3 (su_effects (fst (TunnelListener scenario_server None scenario_schedule))) =
       [Log InfoLevel ''server started successfully, listening on address: %s'',
        Go (go_acceptStreamConn 0), Go (go_acceptStreamConn 1)]"
    unfolding n by (simp add: numeral_3_eq_3 upt_rec)
  from C no
  have c0: "fst (acceptRound scenario_server 0 False (scenario_attempt 5 ''wrong'')) = scenario_server
   \<and> snd (snd (acceptRound scenario_server 0 False (scenario_attempt 5 ''wrong''))) = Continue
   \<and> (at_Accept (scenario_attempt 5 ''wrong'') = Inr 5 \<longrightarrow>
        (if at_isTCP (scenario_attempt 5 ''wrong'') \<and> at_smux (scenario_attempt 5 ''wrong'') = None
         then CloseSession (acceptedSession scenario_server 5) else Close 5)
          \<in> set (fst (snd (acceptRound scenario_server 0 False (scenario_attempt 5 ''wrong'')))))"
    by blast
  from c0 obs
  have c: "fst (acceptRound scenario_server 0 False (scenario_attempt 5 ''wrong'')) = scenario_server
   \<and> snd (snd (acceptRound scenario_server 0 False (scenario_attempt 5 ''wrong''))) = Continue
   \<and> CloseSession (acceptedSession scenario_server 5)
       \<in> set (fst (snd (acceptRound scenario_server 0 False (scenario_attempt 5 ''wrong''))))"
    by simp
  from a b c show ?thesis by blast
qed

lemma scenario_loops_start:
  "loops_start scenario_server =
     \<lparr> al_server = scenario_server, al_loops = [Accepting, Accepting], al_awake = [0, 0],
       al_rounds = [] \<rparr>"
  by (simp add: loops_start_def scenario_server_def scenario_TcpMuxConfig_def numeral_2_eq_2)

lemma scenario_wrong_slept:
  "slept [Log DebugLevel ''waiting for accept incoming tunnel connection on %s'',
       SendBinaryString 5 ''error'',
       Log ErrorLevel ''failed to establish a new session. Token mismatch: received %s, expected %s'',
       CloseSession (acceptedSession scenario_server 5),
       Sleep (2 * Second)] = 2 * Second"
  by (simp add: slept_def)

text \<open>
  Claim C6 as stated has the server sleep 2 seconds before the next accept on the same
  tunnel listener, and install the session whenever the token is the configured one.
  With the two accept loops of the scenario server, the loop 0 reads a wrong token at
  the time 0 and the loop 1 accepts the next socket, and installs its session, one
  nanosecond later. And a round in which the configured token is received but \<open>"ok"\<close>
  cannot be sent installs nothing.
\<close>

theorem C6_other_loop_ack_failure_counterexample:
  "al_rounds (foldl loops_round (loops_start scenario_server)
       [(0, 0, False, scenario_attempt 5 ''wrong''),
        (1, 1, False, scenario_attempt 6 ''sahmadiut'')]) =
     [(0, 0, [Log DebugLevel ''waiting for accept incoming tunnel connection on %s'',
              SendBinaryString 5 ''error'',
              Log ErrorLevel ''failed to establish a new session. Token mismatch: received %s, expected %s'',
              CloseSession (acceptedSession scenario_server 5),
              Sleep (2 * Second)]),
      (1, 1, [Log DebugLevel ''waiting for accept incoming tunnel connection on %s'',
              SendBinaryString 6 ''ok'',
              Log InfoLevel ''successfully established SMUX session with ID %d for connection %s'',
              WgDone])]
   \<and> (1 :: duration) < 0 + 2 * Second
   \<and> s_smuxSession (al_server (foldl loops_round (loops_start scenario_server)
       [(0, 0, False, scenario_attempt 5 ''wrong''),
        (1, 1, False, scenario_attempt 6 ''sahmadiut'')])) =
       [None, Some (acceptedSession scenario_server 6)]
   \<and> acceptRound scenario_server 0 False
        \<lparr> at_Accept = Inr 5, at_isTCP = True, at_SetNoDelay = None, at_smux = None,
          at_AcceptStream = Inr 5, at_ReceiveBinaryString = Inr ''sahmadiut'',
          at_SendBinaryString = Some ''broken pipe'' \<rparr> =
       (scenario_server,
        [Log DebugLevel ''waiting for accept incoming tunnel connection on %s'',
         SendBinaryString 5 ''ok'',
         Log ErrorLevel ''failed to send acknowledgment for token to stream %v: %v'',
         CloseSession (acceptedSession scenario_server 5)], Continue)
   \<and> TcpMuxConfig.Token (s_config scenario_server) = ''sahmadiut''"
proof -
  let ?st0 = "loops_start scenario_server"
  let ?es1 = "[Log DebugLevel ''waiting for accept incoming tunnel connection on %s'',
              SendBinaryString 5 ''error'',
              Log ErrorLevel ''failed to establish a new session. Token mismatch: received %s, expected %s'',
              CloseSession (acceptedSession scenario_server 5),
              Sleep (2 * Second)]"
  let ?es2 = "[Log DebugLevel ''waiting for accept incoming tunnel connection on %s'',
              SendBinaryString 6 ''ok'',
              Log InfoLevel ''successfully established SMUX session with ID %d for connection %s'',
              WgDone]"
  have st0: "al_server ?st0 = scenario_server" "al_loops ?st0 = [Accepting, Accepting]"
    "al_awake ?st0 = [0, 0]" "al_rounds ?st0 = []"
    by (simp_all add: scenario_loops_start)
  have r1: "acceptRound (al_server ?st0) 0 False (scenario_attempt 5 ''wrong'') =
      (scenario_server, ?es1, Continue)"
    unfolding st0 by (rule scenario_round_wrong)
  have s1: "loops_round ?st0 (0, 0, False, scenario_attempt 5 ''wrong'') =
      \<lparr> al_server = scenario_server, al_loops = [Accepting, Accepting],
        al_awake = [2 * Second, 0], al_rounds = [(0, 0, ?es1)] \<rparr>"
  proof -
    have p1: "0 < length (al_loops ?st0)" "al_loops ?st0 ! 0 = Accepting" "al_awake ?st0 ! 0 \<le> 0"
      by (simp_all add: st0)
    show ?thesis by (rule trans [OF loops_round_taken [OF p1 r1]]) (simp add: st0 scenario_wrong_slept)
  qed
  let ?st1 = "\<lparr> al_server = scenario_server, al_loops = [Accepting, Accepting],
        al_awake = [2 * Second, 0], al_rounds = [(0, 0, ?es1)] \<rparr>"
  have r2: "acceptRound (al_server ?st1) 1 False (scenario_attempt 6 ''sahmadiut'') =
      (scenario_server\<lparr>s_smuxSession := [None, Some (acceptedSession scenario_server 6)]\<rparr>,
       ?es2, Established)"
    using scenario_round_right [of scenario_server 1 6] by (simp add: scenario_server_def)
  have s2: "loops_round ?st1 (1, 1, False, scenario_attempt 6 ''sahmadiut'') =
      \<lparr> al_server = scenario_server\<lparr>s_smuxSession := [None, Some (acceptedSession scenario_server 6)]\<rparr>,
        al_loops = [Accepting, Serving],
        al_awake = [2 * Second, 1 + slept ?es2], al_rounds = [(0, 0, ?es1), (1, 1, ?es2)] \<rparr>"
  proof -
    have p2: "1 < length (al_loops ?st1)" "al_loops ?st1 ! 1 = Accepting" "al_awake ?st1 ! 1 \<le> 1"
      by simp_all
    show ?thesis by (rule trans [OF loops_round_taken [OF p2 r2]]) simp
  qed
  have f: "foldl loops_round ?st0
       [(0, 0, False, scenario_attempt 5 ''wrong''),
        (1, 1, False, scenario_attempt 6 ''sahmadiut'')] =
      \<lparr> al_server = scenario_server\<lparr>s_smuxSession := [None, Some (acceptedSession scenario_server 6)]\<rparr>,
        al_loops = [Accepting, Serving],
        al_awake = [2 * Second, 1 + slept ?es2], al_rounds = [(0, 0, ?es1), (1, 1, ?es2)] \<rparr>"
    unfolding foldl.simps s1 s2 ..
  have tk: "TcpMuxConfig.Token (s_config scenario_server) = ''sahmadiut''"
    by (simp add: scenario_server_def scenario_TcpMuxConfig_def)
  have nack: "acceptRound scenario_server 0 False
        \<lparr> at_Accept = Inr 5, at_isTCP = True, at_SetNoDelay = None, at_smux = None,
          at_AcceptStream = Inr 5, at_ReceiveBinaryString = Inr ''sahmadiut'',
          at_SendBinaryString = Some ''broken pipe'' \<rparr> =
       (scenario_server,
        [Log DebugLevel ''waiting for accept incoming tunnel connection on %s'',
         SendBinaryString 5 ''ok'',
         Log ErrorLevel ''failed to send acknowledgment for token to stream %v: %v'',
         CloseSession (acceptedSession scenario_server 5)], Continue)"
  proof -
    have "acceptRound scenario_server 0 False
        \<lparr> at_Accept = Inr 5, at_isTCP = True, at_SetNoDelay = None, at_smux = None,
          at_AcceptStream = Inr 5, at_ReceiveBinaryString = Inr ''sahmadiut'',
          at_SendBinaryString = Some ''broken pipe'' \<rparr> =
       (scenario_server,
        Log DebugLevel ''waiting for accept incoming tunnel connection on %s''
         # nodelayLog scenario_server
             (at_SetNoDelay \<lparr> at_Accept = Inr 5, at_isTCP = True, at_SetNoDelay = None, at_smux = None,
                at_AcceptStream = Inr 5, at_ReceiveBinaryString = Inr ''sahmadiut'',
                at_SendBinaryString = Some ''broken pipe'' \<rparr>) @
           [SendBinaryString 5 ''ok'',
            Log ErrorLevel ''failed to send acknowledgment for token to stream %v: %v'',
            CloseSession (acceptedSession scenario_server 5)], Continue)"
      by (rule acceptRound_ack_fails [where err = "''broken pipe''" and token = "''sahmadiut''"])
         (simp_all add: tk)
    then show ?thesis by (simp add: nodelayLog_def scenario_server_def scenario_TcpMuxConfig_def)
  qed
  have lt: "(1 :: duration) < 0 + 2 * Second" by (simp add: Second_def)
  have rounds: "al_rounds (foldl loops_round ?st0
       [(0, 0, False, scenario_attempt 5 ''wrong''),
        (1, 1, False, scenario_attempt 6 ''sahmadiut'')]) = [(0, 0, ?es1), (1, 1, ?es2)]"
    unfolding f by simp
  have pool: "s_smuxSession (al_server (foldl loops_round ?st0
       [(0, 0, False, scenario_attempt 5 ''wrong''),
        (1, 1, False, scenario_attempt 6 ''sahmadiut'')])) =
       [None, Some (acceptedSession scenario_server 6)]"
    unfolding f by simp
  from rounds lt pool nack tk show ?thesis by blast
qed

theorem C6_token_check_witness:
  "acceptRound scenario_server 0 False (scenario_attempt 5 ''wrong'') =
     (scenario_server,
      [Log DebugLevel ''waiting for accept incoming tunnel connection on %s'',
       SendBinaryString 5 ''error'',
       Log ErrorLevel ''failed to establish a new session. Token mismatch: received %s, expected %s'',
       CloseSession (acceptedSession scenario_server 5),
       Sleep (2 * Second)], Continue)
   \<and> acceptRound scenario_server 1 False (scenario_attempt 6 ''sahmadiut'') =
     (scenario_server\<lparr>s_smuxSession := [None, Some (acceptedSession scenario_server 6)]\<rparr>,
      [Log DebugLevel ''waiting for accept incoming tunnel connection on %s'',
       SendBinaryString 6 ''ok'',
       Log InfoLevel ''successfully established SMUX session with ID %d for connection %s'',
       WgDone], Established)
   \<and> al_awake (loops_round (loops_start scenario_server)
        (0, 0, False, scenario_attempt 5 ''wrong'')) = [2 * Second, 0]
   \<and> loops_round (loops_round (loops_start scenario_server)
          (0, 0, False, scenario_attempt 5 ''wrong''))
        (Second, 0, False, scenario_attempt 7 ''sahmadiut'') =
       loops_round (loops_start scenario_server) (0, 0, False, scenario_attempt 5 ''wrong'')"
proof -
  have idx: "(0 :: nat) < nat (TcpMuxConfig.MuxSession scenario_TcpMuxConfig)"
    "(1 :: nat) < nat (TcpMuxConfig.MuxSession scenario_TcpMuxConfig)"
    by (simp_all add: scenario_TcpMuxConfig_def)
  have obs: "at_Accept (scenario_attempt cn t) = Inr cn" "at_isTCP (scenario_attempt cn t)"
    "at_smux (scenario_attempt cn t) = None" "at_AcceptStream (scenario_attempt cn t) = Inr cn"
    "at_ReceiveBinaryString (scenario_attempt cn t) = Inr t"
    "at_SendBinaryString (scenario_attempt cn t) = None"
    "at_SetNoDelay (scenario_attempt cn t) = None" for cn t
    by (simp_all add: scenario_attempt_def)
  have nd: "\<not> False" by simp
  note o5 = obs [of 5 "''wrong''"]
  note o6 = obs [of 6 "''sahmadiut''"]
  note W = C6_token_check [OF scenario_server_reachable idx(1) nd o5(1) o5(2) o5(3) o5(4) o5(5),
      where st = "loops_start scenario_server" and t = 0 and t' = Second and dn' = False
        and a' = "scenario_attempt 7 ''sahmadiut''"]
  note R = C6_token_check [OF scenario_server_reachable idx(2) nd o6(1) o6(2) o6(3) o6(4) o6(5)]
  have tok: "TcpMuxConfig.Token scenario_TcpMuxConfig = ''sahmadiut''"
    "nodelayLog scenario_server None = []"
    "s_smuxSession scenario_server = [None, None]"
    by (simp_all add: scenario_TcpMuxConfig_def nodelayLog_def scenario_server_def)
  have w: "''wrong'' \<noteq> TcpMuxConfig.Token scenario_TcpMuxConfig" by (simp add: tok)
  have r: "''sahmadiut'' = TcpMuxConfig.Token scenario_TcpMuxConfig
      \<and> at_SendBinaryString (scenario_attempt 6 ''sahmadiut'') = None"
    by (simp add: tok obs)
  from W w have a0: "acceptRound scenario_server 0 False (scenario_attempt 5 ''wrong'') =
          (scenario_server, Log DebugLevel ''waiting for accept incoming tunnel connection on %s''
                # nodelayLog scenario_server (at_SetNoDelay (scenario_attempt 5 ''wrong'')) @
                [SendBinaryString 5 ''error''] @
                (case at_SendBinaryString (scenario_attempt 5 ''wrong'') of
                   Some err \<Rightarrow> [Log ErrorLevel ''failed to send error response to stream %v: %v'']
                 | None \<Rightarrow> []) @
                [Log ErrorLevel ''failed to establish a new session. Token mismatch: received %s, expected %s'',
                 CloseSession (acceptedSession scenario_server 5),
                 Sleep (2 * Second)], Continue)"
    by blast
  from R r have b0: "acceptRound scenario_server 1 False (scenario_attempt 6 ''sahmadiut'') =
          (scenario_server\<lparr>s_smuxSession := (s_smuxSession scenario_server)[1 := Some (acceptedSession scenario_server 6)]\<rparr>,
           Log DebugLevel ''waiting for accept incoming tunnel connection on %s''
             # nodelayLog scenario_server (at_SetNoDelay (scenario_attempt 6 ''sahmadiut'')) @
           [SendBinaryString 6 ''ok'',
            Log InfoLevel ''successfully established SMUX session with ID %d for connection %s'',
            WgDone],
           Established)"
    by blast
  have st: "al_server (loops_start scenario_server) = scenario_server
      \<and> 0 < length (al_loops (loops_start scenario_server))
      \<and> 0 < length (al_awake (loops_start scenario_server))
      \<and> al_loops (loops_start scenario_server) ! 0 = Accepting
      \<and> al_awake (loops_start scenario_server) ! 0 \<le> 0"
    by (simp add: scenario_loops_start)
  from W w st have c0: "loops_round (loops_start scenario_server) (0, 0, False, scenario_attempt 5 ''wrong'') =
          (loops_start scenario_server)\<lparr>al_awake := (al_awake (loops_start scenario_server))[0 := 0 + 2 * Second],
             al_rounds := al_rounds (loops_start scenario_server) @
               [(0, 0, fst (snd (acceptRound scenario_server 0 False (scenario_attempt 5 ''wrong''))))]\<rparr>"
    and d0: "Second < 0 + 2 * Second \<longrightarrow>
             loops_round (loops_round (loops_start scenario_server) (0, 0, False, scenario_attempt 5 ''wrong''))
               (Second, 0, False, scenario_attempt 7 ''sahmadiut'') =
               loops_round (loops_start scenario_server) (0, 0, False, scenario_attempt 5 ''wrong'')"
    by blast+
  have a: "acceptRound scenario_server 0 False (scenario_attempt 5 ''wrong'') =
     (scenario_server,
      [Log DebugLevel ''waiting for accept incoming tunnel connection on %s'',
       SendBinaryString 5 ''error'',
       Log ErrorLevel ''failed to establish a new session. Token mismatch: received %s, expected %s'',
       CloseSession (acceptedSession scenario_server 5),
       Sleep (2 * Second)], Continue)"
    using a0 by (simp add: tok obs)
  have b: "acceptRound scenario_server 1 False (scenario_attempt 6 ''sahmadiut'') =
     (scenario_server\<lparr>s_smuxSession := [None, Some (acceptedSession scenario_server 6)]\<rparr>,
      [Log DebugLevel ''waiting for accept incoming tunnel connection on %s'',
       SendBinaryString 6 ''ok'',
       Log InfoLevel ''successfully established SMUX session with ID %d for connection %s'',
       WgDone], Established)"
    using b0 by (simp add: tok obs)
  have c: "al_awake (loops_round (loops_start scenario_server)
        (0, 0, False, scenario_attempt 5 ''wrong'')) = [2 * Second, 0]"
    unfolding c0 by (simp add: scenario_loops_start)
  have d: "loops_round (loops_round (loops_start scenario_server)
          (0, 0, False, scenario_attempt 5 ''wrong''))
        (Second, 0, False, scenario_attempt 7 ''sahmadiut'') =
       loops_round (loops_start scenario_server) (0, 0, False, scenario_attempt 5 ''wrong'')"
    using d0 by (simp add: Second_def)
  from a b c d show ?thesis by blast
qed

subsection \<open>The dispatcher of the mux server\<close>

lemma dispatchConn_nil_or_closed:
  assumes "0 < TcpMuxConfig.MuxSession (s_config s)"
    and "0 \<le> d_Intn d (TcpMuxConfig.MuxSession (s_config s))"
    and "d_Intn d (TcpMuxConfig.MuxSession (s_config s)) < int (length (s_smuxSession s))"
    and "s_smuxSession s ! nat (d_Intn d (TcpMuxConfig.MuxSession (s_config s))) = None \<or> d_IsClosed d"
  shows "dispatchConn s remotePort d =
     ([Log ErrorLevel ''MUX session with ID %d is closed or nil. Discarding incoming connection from %s.'',
       Close (d_incomingConn d),
       Log InfoLevel ''attempting to restart server...'', Go go_Restart], False)"
  using assms by (auto simp: dispatchConn_def Let_def discardAndRestart_def split: option.splits)

lemma dispatchConn_open_fails:
  assumes "0 < TcpMuxConfig.MuxSession (s_config s)"
    and "0 \<le> d_Intn d (TcpMuxConfig.MuxSession (s_config s))"
    and "d_Intn d (TcpMuxConfig.MuxSession (s_config s)) < int (length (s_smuxSession s))"
    and "s_smuxSession s ! nat (d_Intn d (TcpMuxConfig.MuxSession (s_config s))) = Some sess"
    and "\<not> d_IsClosed d" and "d_OpenStream d = Inl err"
  shows "dispatchConn s remotePort d =
     ([OpenStream sess,
       Log ErrorLevel ''failed to open a new mux stream for session ID %d: %v'',
       Close (d_incomingConn d),
       Log InfoLevel ''attempting to restart server...'', Go go_Restart], False)"
  using assms by (simp add: dispatchConn_def Let_def discardAndRestart_def)

lemma dispatchConn_send_fails:
  assumes "0 < TcpMuxConfig.MuxSession (s_config s)"
    and "0 \<le> d_Intn d (TcpMuxConfig.MuxSession (s_config s))"
    and "d_Intn d (TcpMuxConfig.MuxSession (s_config s)) < int (length (s_smuxSession s))"
    and "s_smuxSession s ! nat (d_Intn d (TcpMuxConfig.MuxSession (s_config s))) = Some sess"
    and "\<not> d_IsClosed d" and "d_OpenStream d = Inr strm" and "d_SendBinaryInt d = Some err"
  shows "dispatchConn s remotePort d =
     ([OpenStream sess,
       SendBinaryInt strm (word_of_int remotePort),
       Log WarnLevel ''Failed to send port %d over stream for session ID %d: %v'',
       Close (d_incomingConn d)], True)"
  using assms by (simp add: dispatchConn_def Let_def)


lemma handleMUXSession_fatal:
  "dispatchConn s remotePort d = (es, False) \<Longrightarrow>
     handleMUXSession s remotePort (Some d # rest) = (es, Returned)"
  by simp

lemma handleMUXSession_goes_on:
  "dispatchConn s remotePort d = (es, True) \<Longrightarrow>
     handleMUXSession s remotePort (Some d # rest) =
       (es @ fst (handleMUXSession s remotePort rest), snd (handleMUXSession s remotePort rest))"
  by (simp split: prod.splits)

text \<open>
  Claim C2. For a connection that the dispatcher of a reachable server takes from the
  channel, \<open>rand.Intn(MuxSession)\<close> answering with an index in \<open>[0, MuxSession)\<close> as its
  contract says: the slot looked at is the one with that index, which the pool has. If
  the slot is nil or its session is closed, or if \<open>OpenStream\<close> on the session fails, the
  incoming connection is closed, a \<open>Restart\<close> is started and the dispatcher returns,
  whatever else is in the channel. If only the write of the port header fails, the
  incoming connection is closed, no \<open>Restart\<close> is started and the dispatcher goes on with
  the next event.
\<close>

theorem C2_dispatch_faults:
  assumes "mux_server cfg s" and "0 < TcpMuxConfig.MuxSession cfg"
    and "0 \<le> d_Intn d (TcpMuxConfig.MuxSession cfg)"
    and "d_Intn d (TcpMuxConfig.MuxSession cfg) < TcpMuxConfig.MuxSession cfg"
  shows
    "nat (d_Intn d (TcpMuxConfig.MuxSession cfg)) < length (s_smuxSession s)
     \<and> (s_smuxSession s ! nat (d_Intn d (TcpMuxConfig.MuxSession cfg)) = None \<or> d_IsClosed d \<longrightarrow>
          handleMUXSession s remotePort (Some d # rest) =
            ([Log ErrorLevel ''MUX session with ID %d is closed or nil. Discarding incoming connection from %s.'',
              Close (d_incomingConn d),
              Log InfoLevel ''attempting to restart server...'', Go go_Restart], Returned))
     \<and> (s_smuxSession s ! nat (d_Intn d (TcpMuxConfig.MuxSession cfg)) = Some sess
          \<and> \<not> d_IsClosed d \<and> d_OpenStream d = Inl err \<longrightarrow>
          handleMUXSession s remotePort (Some d # rest) =
            ([OpenStream sess,
              Log ErrorLevel ''failed to open a new mux stream for session ID %d: %v'',
              Close (d_incomingConn d),
              Log InfoLevel ''attempting to restart server...'', Go go_Restart], Returned))
     \<and> (s_smuxSession s ! nat (d_Intn d (TcpMuxConfig.MuxSession cfg)) = Some sess
          \<and> \<not> d_IsClosed d \<and> d_OpenStream d = Inr strm \<and> d_SendBinaryInt d = Some err \<longrightarrow>
          handleMUXSession s remotePort (Some d # rest) =
            ([OpenStream sess,
              SendBinaryInt strm (word_of_int remotePort),
              Log WarnLevel ''Failed to send port %d over stream for session ID %d: %v'',
              Close (d_incomingConn d)] @ fst (handleMUXSession s remotePort rest),
             snd (handleMUXSession s remotePort rest)))"
proof -
  from mux_server_fields [OF assms(1)]
  have cfg: "s_config s = cfg" and len: "length (s_smuxSession s) = nat (TcpMuxConfig.MuxSession cfg)"
    by blast+
  let ?id = "d_Intn d (TcpMuxConfig.MuxSession cfg)"
  have pos: "0 < TcpMuxConfig.MuxSession (s_config s)" using assms(2) cfg by simp
  have lo: "0 \<le> d_Intn d (TcpMuxConfig.MuxSession (s_config s))" using assms(3) cfg by simp
  have hi: "d_Intn d (TcpMuxConfig.MuxSession (s_config s)) < int (length (s_smuxSession s))"
    using assms(2,4) cfg len by simp
  have range: "nat ?id < length (s_smuxSession s)" using assms(2,3,4) len by simp
  have nil: "s_smuxSession s ! nat ?id = None \<or> d_IsClosed d \<longrightarrow>
          handleMUXSession s remotePort (Some d # rest) =
            ([Log ErrorLevel ''MUX session with ID %d is closed or nil. Discarding incoming connection from %s.'',
              Close (d_incomingConn d),
              Log InfoLevel ''attempting to restart server...'', Go go_Restart], Returned)"
  proof
    assume "s_smuxSession s ! nat ?id = None \<or> d_IsClosed d"
    then have "s_smuxSession s ! nat (d_Intn d (TcpMuxConfig.MuxSession (s_config s))) = None \<or> d_IsClosed d"
      by (simp add: cfg)
    from handleMUXSession_fatal [OF dispatchConn_nil_or_closed [OF pos lo hi this]]
    show "handleMUXSession s remotePort (Some d # rest) =
            ([Log ErrorLevel ''MUX session with ID %d is closed or nil. Discarding incoming connection from %s.'',
              Close (d_incomingConn d),
              Log InfoLevel ''attempting to restart server...'', Go go_Restart], Returned)" .
  qed
  have opn: "s_smuxSession s ! nat ?id = Some sess
          \<and> \<not> d_IsClosed d \<and> d_OpenStream d = Inl err \<longrightarrow>
          handleMUXSession s remotePort (Some d # rest) =
            ([OpenStream sess,
              Log ErrorLevel ''failed to open a new mux stream for session ID %d: %v'',
              Close (d_incomingConn d),
              Log InfoLevel ''attempting to restart server...'', Go go_Restart], Returned)"
  proof
    assume a: "s_smuxSession s ! nat ?id = Some sess \<and> \<not> d_IsClosed d \<and> d_OpenStream d = Inl err"
    then have sl: "s_smuxSession s ! nat (d_Intn d (TcpMuxConfig.MuxSession (s_config s))) = Some sess"
      by (simp add: cfg)
    from a have b: "\<not> d_IsClosed d" "d_OpenStream d = Inl err" by simp_all
    from handleMUXSession_fatal [OF dispatchConn_open_fails [OF pos lo hi sl b]]
    show "handleMUXSession s remotePort (Some d # rest) =
            ([OpenStream sess,
              Log ErrorLevel ''failed to open a new mux stream for session ID %d: %v'',
              Close (d_incomingConn d),
              Log InfoLevel ''attempting to restart server...'', Go go_Restart], Returned)" .
  qed
  have snd_fail: "s_smuxSession s ! nat ?id = Some sess
          \<and> \<not> d_IsClosed d \<and> d_OpenStream d = Inr strm \<and> d_SendBinaryInt d = Some err \<longrightarrow>
          handleMUXSession s remotePort (Some d # rest) =
            ([OpenStream sess,
              SendBinaryInt strm (word_of_int remotePort),
              Log WarnLevel ''Failed to send port %d over stream for session ID %d: %v'',
              Close (d_incomingConn d)] @ fst (handleMUXSession s remotePort rest),
             snd (handleMUXSession s remotePort rest))"
  proof
    assume a: "s_smuxSession s ! nat ?id = Some sess
          \<and> \<not> d_IsClosed d \<and> d_OpenStream d = Inr strm \<and> d_SendBinaryInt d = Some err"
    then have sl: "s_smuxSession s ! nat (d_Intn d (TcpMuxConfig.MuxSession (s_config s))) = Some sess"
      by (simp add: cfg)
    from a have b: "\<not> d_IsClosed d" "d_OpenStream d = Inr strm" "d_SendBinaryInt d = Some err"
      by simp_all
    from handleMUXSession_goes_on [OF dispatchConn_send_fails [OF pos lo hi sl b]]
    show "handleMUXSession s remotePort (Some d # rest) =
            ([OpenStream sess,
              SendBinaryInt strm (word_of_int remotePort),
              Log WarnLevel ''Failed to send port %d over stream for session ID %d: %v'',
              Close (d_incomingConn d)] @ fst (handleMUXSession s remotePort rest),
             snd (handleMUXSession s remotePort rest))" .
  qed
  show ?thesis using range nil opn snd_fail by blast
qed

lemma scenario_one_session:
  "mux_server scenario_TcpMuxConfig
     (fst (acceptRound scenario_server 1 False (scenario_attempt 6 ''sahmadiut'')))
   \<and> fst (acceptRound scenario_server 1 False (scenario_attempt 6 ''sahmadiut'')) =
       scenario_server\<lparr>s_smuxSession := [None, Some (acceptedSession scenario_server 6)]\<rparr>"
proof
  show "mux_server scenario_TcpMuxConfig
     (fst (acceptRound scenario_server 1 False (scenario_attempt 6 ''sahmadiut'')))"
    by (rule mux_server.mux_round [OF scenario_server_reachable])
  show "fst (acceptRound scenario_server 1 False (scenario_attempt 6 ''sahmadiut'')) =
       scenario_server\<lparr>s_smuxSession := [None, Some (acceptedSession scenario_server 6)]\<rparr>"
    using scenario_round_right [of scenario_server 1 6] by (simp add: scenario_server_def)
qed

theorem C2_dispatch_faults_witness:
  "handleMUXSession
     (scenario_server\<lparr>s_smuxSession := [None, Some (acceptedSession scenario_server 6)]\<rparr>) 22
     [Some (scenario_dispatch 1 (Inr 9) (Some ''broken pipe'')),
      Some (scenario_dispatch 1 (Inl ''session shutdown'') None),
      Some (scenario_dispatch 1 (Inr 10) None)] =
   ([OpenStream (acceptedSession scenario_server 6),
     SendBinaryInt 9 22,
     Log WarnLevel ''Failed to send port %d over stream for session ID %d: %v'',
     Close 40,
     OpenStream (acceptedSession scenario_server 6),
     Log ErrorLevel ''failed to open a new mux stream for session ID %d: %v'',
     Close 40,
     Log InfoLevel ''attempting to restart server...'', Go go_Restart], Returned)
   \<and> handleMUXSession
     (scenario_server\<lparr>s_smuxSession := [None, Some (acceptedSession scenario_server 6)]\<rparr>) 22
     [Some (scenario_dispatch 0 (Inr 9) None), Some (scenario_dispatch 1 (Inr 10) None)] =
   ([Log ErrorLevel ''MUX session with ID %d is closed or nil. Discarding incoming connection from %s.'',
     Close 40,
     Log InfoLevel ''attempting to restart server...'', Go go_Restart], Returned)"
proof -
  let ?s = "scenario_server\<lparr>s_smuxSession := [None, Some (acceptedSession scenario_server 6)]\<rparr>"
  from scenario_one_session
  have r0: "mux_server scenario_TcpMuxConfig
      (fst (acceptRound scenario_server 1 False (scenario_attempt 6 ''sahmadiut'')))"
    and eq: "fst (acceptRound scenario_server 1 False (scenario_attempt 6 ''sahmadiut'')) = ?s"
    by blast+
  have r: "mux_server scenario_TcpMuxConfig ?s" using r0 unfolding eq .
  have m: "0 < TcpMuxConfig.MuxSession scenario_TcpMuxConfig"
    "TcpMuxConfig.MuxSession scenario_TcpMuxConfig = 2"
    by (simp_all add: scenario_TcpMuxConfig_def)
  have d: "d_Intn (scenario_dispatch k opened sent) n = k"
    "d_IsClosed (scenario_dispatch k opened sent) = False"
    "d_OpenStream (scenario_dispatch k opened sent) = opened"
    "d_SendBinaryInt (scenario_dispatch k opened sent) = sent"
    "d_incomingConn (scenario_dispatch k opened sent) = 40" for k opened sent n
    by (simp_all add: scenario_dispatch_def)
  have lo1: "0 \<le> d_Intn (scenario_dispatch 1 opened sent) (TcpMuxConfig.MuxSession scenario_TcpMuxConfig)"
    and hi1: "d_Intn (scenario_dispatch 1 opened sent) (TcpMuxConfig.MuxSession scenario_TcpMuxConfig)
          < TcpMuxConfig.MuxSession scenario_TcpMuxConfig"
    and lo0: "0 \<le> d_Intn (scenario_dispatch 0 opened sent) (TcpMuxConfig.MuxSession scenario_TcpMuxConfig)"
    and hi0: "d_Intn (scenario_dispatch 0 opened sent) (TcpMuxConfig.MuxSession scenario_TcpMuxConfig)
          < TcpMuxConfig.MuxSession scenario_TcpMuxConfig" for opened sent
    by (simp_all add: d m)
  note A = C2_dispatch_faults [OF r m(1) lo1 [of "Inr 9" "Some ''broken pipe''"]
        hi1 [of "Inr 9" "Some ''broken pipe''"],
      where remotePort = 22 and sess = "acceptedSession scenario_server 6" and strm = 9
      and err = "''broken pipe''"
      and rest = "[Some (scenario_dispatch 1 (Inl ''session shutdown'') None),
                   Some (scenario_dispatch 1 (Inr 10) None)]"]
  note B = C2_dispatch_faults [OF r m(1) lo1 [of "Inl ''session shutdown''" None]
        hi1 [of "Inl ''session shutdown''" None],
      where remotePort = 22 and sess = "acceptedSession scenario_server 6"
      and err = "''session shutdown''"
      and rest = "[Some (scenario_dispatch 1 (Inr 10) None)]"]
  note C = C2_dispatch_faults [OF r m(1) lo0 [of "Inr 9" None] hi0 [of "Inr 9" None],
      where remotePort = 22 and rest = "[Some (scenario_dispatch 1 (Inr 10) None)]"]
  show ?thesis using A B C by (simp add: d m)
qed

subsection \<open>The accept queue of a local listener\<close>

lemma offer_fields:
  "l_cap (offer s l cn pre) = l_cap l \<and> l_received (offer s l cn pre) = l_received l
   \<and> l_accepting (offer s l cn pre) = l_accepting l"
  by (simp add: offer_def)

lemma nodelayLog_plain:
  "After d \<notin> set (nodelayLog s nd) \<and> filter (\<lambda>e. e \<in> range Close) (nodelayLog s nd) = []"
  by (auto simp: nodelayLog_def split: option.split)

text \<open>One step keeps the capacity, the bound, the order of arrival and the timers.\<close>

lemma queue_step_inv:
  assumes "length (l_chan l) \<le> l_cap l"
    and "subseq (l_received l @ l_chan l @ pending_list l) (arrivals evs)"
    and "\<forall>d. After d \<in> set (l_effects l) \<longrightarrow> d = s_timeout s"
  shows "l_cap (queue_step s l ev) = l_cap l
     \<and> length (l_chan (queue_step s l ev)) \<le> l_cap l
     \<and> subseq (l_received (queue_step s l ev) @ l_chan (queue_step s l ev)
                @ pending_list (queue_step s l ev)) (arrivals (evs @ [ev]))
     \<and> (\<forall>d. After d \<in> set (l_effects (queue_step s l ev)) \<longrightarrow> d = s_timeout s)"
proof (cases ev)
  case (Arrive dn accepted isTCP nd)
  have keep: "subseq (l_received l @ l_chan l @ pending_list l) (arrivals evs @ arrived ev)"
    using assms(2) by (rule list_emb_prefix)
  have arr: "arrivals (evs @ [ev]) = arrivals evs @ arrived ev" by (simp add: arrivals_def)
  show ?thesis
  proof (cases "\<not> l_accepting l \<or> l_pending l \<noteq> None")
    case True
    then have "queue_step s l ev = l" by (simp add: Arrive)
    with keep arr assms show ?thesis by simp
  next
    case ready: False
    show ?thesis
    proof (cases dn)
      case True
      with ready have "queue_step s l ev = l\<lparr>l_accepting := False\<rparr>" by (simp add: Arrive)
      with keep arr assms show ?thesis by (simp add: pending_list_def)
    next
      case nd: False
      show ?thesis
      proof (cases accepted)
        case (Inl err)
        with ready nd have "queue_step s l ev = l\<lparr>l_effects := l_effects l @
                 [Log DebugLevel ''waiting to accept incoming connection on %s'',
                  Log DebugLevel ''failed to accept connection on %s: %v'']\<rparr>"
          by (simp add: Arrive)
        with keep arr assms show ?thesis by (simp add: pending_list_def)
      next
        case (Inr cn)
        show ?thesis
        proof (cases isTCP)
          case False
          with ready nd Inr have "queue_step s l ev = l\<lparr>l_effects := l_effects l @
                   [Log DebugLevel ''waiting to accept incoming connection on %s'',
                    Log WarnLevel ''disarded non-TCP connection from %s'',
                    Close cn]\<rparr>"
            by (simp add: Arrive)
          with keep arr assms show ?thesis by (simp add: pending_list_def)
        next
          case True
          let ?pre = "Log DebugLevel ''waiting to accept incoming connection on %s'' #
                  nodelayLog s nd @
                  [SetKeepAlive cn True,
                   SetKeepAlivePeriod cn (TcpMuxConfig.KeepAlive (s_config s))]"
          have q: "queue_step s l ev = offer s l cn ?pre"
            using ready nd Inr True by (simp add: Arrive)
          have arr': "arrivals (evs @ [ev]) = arrivals evs @ [cn]"
            using nd Inr True by (simp add: arrivals_def arrived_def Arrive)
          have pl: "pending_list l = []" using ready by (simp add: pending_list_def)
          have "subseq ((l_received l @ l_chan l) @ [cn]) (arrivals evs @ [cn])"
            using assms(2) pl by (intro list_emb_append_mono) simp_all
          then have emb: "subseq (l_received l @ l_chan l @ [cn]) (arrivals evs @ [cn])" by simp
          have pre: "\<forall>d. After d \<in> set ?pre \<longrightarrow> d = s_timeout s"
            using nodelayLog_plain [of _ s nd] by simp
          show ?thesis
          proof (cases "length (l_chan l) < l_cap l")
            case True
            then have o: "offer s l cn ?pre = l\<lparr>l_chan := l_chan l @ [cn],
                l_effects := l_effects l @ ?pre @
                  [After (s_timeout s), Log DebugLevel ''accepted incoming TCP connection from %s'']\<rparr>"
              by (simp add: offer_def)
            have eff: "\<forall>d. After d \<in> set (l_effects l @ ?pre @
                  [After (s_timeout s), Log DebugLevel ''accepted incoming TCP connection from %s''])
                \<longrightarrow> d = s_timeout s"
              using assms(3) pre by auto
            show ?thesis unfolding q o arr' using True emb eff pl by (simp add: pending_list_def)
          next
            case False
            then have o: "offer s l cn ?pre = l\<lparr>l_pending := Some cn,
                l_effects := l_effects l @ ?pre @ [After (s_timeout s)]\<rparr>"
              by (simp add: offer_def)
            have eff: "\<forall>d. After d \<in> set (l_effects l @ ?pre @ [After (s_timeout s)])
                \<longrightarrow> d = s_timeout s"
              using assms(3) pre by auto
            show ?thesis unfolding q o arr' using assms(1) emb eff by (simp add: pending_list_def)
          qed
        qed
      qed
    qed
  qed
next
  case Receive
  have arr: "arrivals (evs @ [ev]) = arrivals evs" by (simp add: arrivals_def arrived_def Receive)
  show ?thesis
  proof (cases "l_chan l")
    case Nil
    show ?thesis
    proof (cases "l_pending l")
      case None
      with Nil have "queue_step s l ev = l" by (simp add: Receive)
      with assms arr show ?thesis by simp
    next
      case (Some cn)
      with Nil have "queue_step s l ev = l\<lparr>l_pending := None,
                 l_received := l_received l @ [cn],
                 l_effects := l_effects l @
                   [Log DebugLevel ''accepted incoming TCP connection from %s'']\<rparr>"
        by (simp add: Receive)
      with assms arr Nil Some show ?thesis by (simp add: pending_list_def)
    qed
  next
    case (Cons oldest queued)
    show ?thesis
    proof (cases "l_pending l")
      case None
      with Cons have "queue_step s l ev = l\<lparr>l_chan := queued, l_received := l_received l @ [oldest]\<rparr>"
        by (simp add: Receive)
      with assms arr Cons None show ?thesis by (simp add: pending_list_def)
    next
      case (Some cn)
      with Cons have "queue_step s l ev = l\<lparr>l_chan := queued @ [cn],
                 l_pending := None,
                 l_received := l_received l @ [oldest],
                 l_effects := l_effects l @
                   [Log DebugLevel ''accepted incoming TCP connection from %s'']\<rparr>"
        by (simp add: Receive)
      with assms arr Cons Some show ?thesis by (simp add: pending_list_def)
    qed
  qed
next
  case TimerFires
  have arr: "arrivals (evs @ [ev]) = arrivals evs" by (simp add: arrivals_def arrived_def TimerFires)
  show ?thesis
  proof (cases "l_pending l")
    case None
    then have "queue_step s l ev = l" by (simp add: TimerFires)
    with assms arr show ?thesis by simp
  next
    case (Some cn)
    then have q: "queue_step s l ev = l\<lparr>l_pending := None,
            l_effects := l_effects l @
              [Log WarnLevel ''channel with listener %s is full, discarding TCP connection from %s'',
               Close cn]\<rparr>"
      by (simp add: TimerFires)
    have "subseq (l_received l @ l_chan l) ((l_received l @ l_chan l) @ [cn])"
      by (rule list_emb_prefix) simp
    moreover have "subseq ((l_received l @ l_chan l) @ [cn]) (arrivals evs)"
      using assms(2) Some by (simp add: pending_list_def)
    ultimately have "subseq (l_received l @ l_chan l) (arrivals evs)"
      by (rule subseq_order.trans)
    then show ?thesis unfolding q arr using assms by (simp add: pending_list_def)
  qed
qed

lemma queue_run_inv:
  assumes "\<forall>d. After d \<in> set (l_effects l0) \<longrightarrow> d = s_timeout s"
    and "l_chan l0 = []" and "l_received l0 = []" and "l_pending l0 = None"
  shows "l_cap (foldl (queue_step s) l0 evs) = l_cap l0
     \<and> length (l_chan (foldl (queue_step s) l0 evs)) \<le> l_cap l0
     \<and> subseq (l_received (foldl (queue_step s) l0 evs) @ l_chan (foldl (queue_step s) l0 evs)
                @ pending_list (foldl (queue_step s) l0 evs)) (arrivals evs)
     \<and> (\<forall>d. After d \<in> set (l_effects (foldl (queue_step s) l0 evs)) \<longrightarrow> d = s_timeout s)"
proof (induction evs rule: rev_induct)
  case Nil
  show ?case using assms by (simp add: pending_list_def arrivals_def)
next
  case (snoc ev evs)
  let ?l = "foldl (queue_step s) l0 evs"
  from snoc have a: "length (l_chan ?l) \<le> l_cap ?l"
    and b: "subseq (l_received ?l @ l_chan ?l @ pending_list ?l) (arrivals evs)"
    and c: "\<forall>d. After d \<in> set (l_effects ?l) \<longrightarrow> d = s_timeout s"
    and cap: "l_cap ?l = l_cap l0"
    by simp_all
  have step: "foldl (queue_step s) l0 (evs @ [ev]) = queue_step s ?l ev" by simp
  from queue_step_inv [OF a b c, of ev] show ?case unfolding step using cap by simp
qed


lemma arrive_room:
  assumes "l_accepting l" and "l_pending l = None" and "length (l_chan l) < l_cap l"
  shows "queue_step s l (Arrive False (Inr cn) True nd) =
     l\<lparr>l_chan := l_chan l @ [cn],
       l_effects := l_effects l @
         (Log DebugLevel ''waiting to accept incoming connection on %s'' #
          nodelayLog s nd @
          [SetKeepAlive cn True, SetKeepAlivePeriod cn (TcpMuxConfig.KeepAlive (s_config s))]) @
         [After (s_timeout s), Log DebugLevel ''accepted incoming TCP connection from %s'']\<rparr>"
  using assms by (simp add: offer_def)

lemma arrive_full:
  assumes "l_accepting l" and "l_pending l = None" and "\<not> length (l_chan l) < l_cap l"
  shows "queue_step s l (Arrive False (Inr cn) True nd) =
     l\<lparr>l_pending := Some cn,
       l_effects := l_effects l @
         (Log DebugLevel ''waiting to accept incoming connection on %s'' #
          nodelayLog s nd @
          [SetKeepAlive cn True, SetKeepAlivePeriod cn (TcpMuxConfig.KeepAlive (s_config s))]) @
         [After (s_timeout s)]\<rparr>"
  using assms by (simp add: offer_def)

lemma timer_discards:
  assumes "l_pending l = Some cn"
  shows "queue_step s l TimerFires =
     l\<lparr>l_pending := None,
       l_effects := l_effects l @
         [Log WarnLevel ''channel with listener %s is full, discarding TCP connection from %s'',
          Close cn]\<rparr>"
  using assms by simp

lemma arrive_fill:
  assumes "l_accepting l" and "l_pending l = None" and "length (l_chan l) + length cs \<le> l_cap l"
  shows "l_chan (foldl (queue_step s) l (map (\<lambda>c. Arrive False (Inr c) True None) cs)) = l_chan l @ cs
     \<and> l_pending (foldl (queue_step s) l (map (\<lambda>c. Arrive False (Inr c) True None) cs)) = None
     \<and> l_accepting (foldl (queue_step s) l (map (\<lambda>c. Arrive False (Inr c) True None) cs))
     \<and> l_cap (foldl (queue_step s) l (map (\<lambda>c. Arrive False (Inr c) True None) cs)) = l_cap l
     \<and> l_received (foldl (queue_step s) l (map (\<lambda>c. Arrive False (Inr c) True None) cs)) = l_received l
     \<and> filter (\<lambda>e. e \<in> range Close)
         (l_effects (foldl (queue_step s) l (map (\<lambda>c. Arrive False (Inr c) True None) cs))) =
       filter (\<lambda>e. e \<in> range Close) (l_effects l)"
  using assms
proof (induction cs arbitrary: l)
  case Nil
  then show ?case by simp
next
  case (Cons c cs)
  let ?l1 = "queue_step s l (Arrive False (Inr c) True None)"
  from Cons.prems have room: "length (l_chan l) < l_cap l" by simp
  note q = arrive_room [OF Cons.prems(1,2) room, of s c None]
  have a: "l_accepting ?l1" "l_pending ?l1 = None" "l_chan ?l1 = l_chan l @ [c]" "l_cap ?l1 = l_cap l"
    "l_received ?l1 = l_received l"
    using Cons.prems(1,2) by (simp_all add: q del: queue_step.simps)
  have f: "filter (\<lambda>e. e \<in> range Close) (l_effects ?l1) = filter (\<lambda>e. e \<in> range Close) (l_effects l)"
    using nodelayLog_plain [of _ s None] by (auto simp add: q simp del: queue_step.simps)
  have b: "length (l_chan ?l1) + length cs \<le> l_cap ?l1" using Cons.prems(3) a by simp
  from Cons.IH [OF a(1) a(2) b] a f show ?case by simp
qed

lemma receive_waiting:
  assumes "l_pending l = Some cn" and "l_chan l = oldest # queued"
  shows "queue_step s l Receive =
     l\<lparr>l_chan := queued @ [cn], l_pending := None,
       l_received := l_received l @ [oldest],
       l_effects := l_effects l @ [Log DebugLevel ''accepted incoming TCP connection from %s'']\<rparr>"
  using assms by simp

lemma receive_handed:
  assumes "l_pending l = Some cn" and "l_chan l = []"
  shows "queue_step s l Receive =
     l\<lparr>l_pending := None, l_received := l_received l @ [cn],
       l_effects := l_effects l @ [Log DebugLevel ''accepted incoming TCP connection from %s'']\<rparr>"
  using assms by simp

lemma receive_queued:
  assumes "l_pending l = None" and "l_chan l = oldest # queued"
  shows "queue_step s l Receive = l\<lparr>l_chan := queued, l_received := l_received l @ [oldest]\<rparr>"
  using assms by simp

lemma arrive_blocked:
  assumes "l_pending l = Some cn"
  shows "queue_step s l (Arrive dn accepted isTCP nd) = l"
  using assms by simp

text \<open>
  Claim C7. For a reachable server whose \<open>ChannelSize\<close> is not negative, and a local
  listener that got its socket: the accept queue has the capacity \<open>ChannelSize\<close> and never
  holds more; what the dispatcher has received, followed by what is queued, followed by
  the connection waiting in the \<open>select\<close>, is always in the order of arrival (first in,
  first out); every timer of the \<open>select\<close> is armed with 2 seconds. A connection that
  arrives while the queue has room is put at its back at once. A connection that arrives
  while the queue is full is not closed: it waits in the \<open>select\<close>, with its 2-second
  timer armed, and the accepting loop takes no other connection meanwhile. If the
  dispatcher receives while it waits, the oldest queued connection leaves the queue and
  the waiting one is put at its back (or handed over directly when the capacity is 0);
  a receive takes the oldest queued connection in any case. If instead the timer of the
  waiting connection runs out, that connection is closed and dropped while the queue and
  what was received stay as they are. So when \<open>ChannelSize + 1\<close> connections arrive and
  none is taken from the queue, the first \<open>ChannelSize\<close> are queued in their order and
  the last one waits, unclosed, on its 2-second timer; when that timer runs out the
  last one, and no other, is closed.
\<close>

theorem C7_accept_queue:
  assumes "mux_server cfg s" and "0 \<le> TcpMuxConfig.ChannelSize cfg"
    and "localListener s localAddr remotePort None evs = Inr l"
  shows
    "l_cap l = nat (TcpMuxConfig.ChannelSize cfg)
     \<and> length (l_chan l) \<le> nat (TcpMuxConfig.ChannelSize cfg)
     \<and> subseq (l_received l @ l_chan l @ pending_list l) (arrivals evs)
     \<and> (\<forall>d. After d \<in> set (l_effects l) \<longrightarrow> d = 2 * Second)
     \<and> (l_accepting l \<and> l_pending l = None
          \<and> length (l_chan l) < nat (TcpMuxConfig.ChannelSize cfg) \<longrightarrow>
          queue_step s l (Arrive False (Inr new) True nd) =
            l\<lparr>l_chan := l_chan l @ [new],
              l_effects := l_effects l @
                (Log DebugLevel ''waiting to accept incoming connection on %s'' #
                 nodelayLog s nd @
                 [SetKeepAlive new True, SetKeepAlivePeriod new (TcpMuxConfig.KeepAlive cfg)]) @
                [After (2 * Second),
                 Log DebugLevel ''accepted incoming TCP connection from %s'']\<rparr>)
     \<and> (l_accepting l \<and> l_pending l = None
          \<and> length (l_chan l) = nat (TcpMuxConfig.ChannelSize cfg) \<longrightarrow>
          queue_step s l (Arrive False (Inr new) True nd) =
            l\<lparr>l_pending := Some new,
              l_effects := l_effects l @
                (Log DebugLevel ''waiting to accept incoming connection on %s'' #
                 nodelayLog s nd @
                 [SetKeepAlive new True, SetKeepAlivePeriod new (TcpMuxConfig.KeepAlive cfg)]) @
                [After (2 * Second)]\<rparr>)
     \<and> (l_pending l = Some cn \<longrightarrow>
          queue_step s l (Arrive dn accepted isTCP nd) = l
          \<and> (l_chan l = oldest # queued \<longrightarrow>
               queue_step s l Receive =
                 l\<lparr>l_chan := queued @ [cn], l_pending := None,
                   l_received := l_received l @ [oldest],
                   l_effects := l_effects l @
                     [Log DebugLevel ''accepted incoming TCP connection from %s'']\<rparr>)
          \<and> (l_chan l = [] \<longrightarrow>
               queue_step s l Receive =
                 l\<lparr>l_pending := None, l_received := l_received l @ [cn],
                   l_effects := l_effects l @
                     [Log DebugLevel ''accepted incoming TCP connection from %s'']\<rparr>))
     \<and> (l_pending l = None \<and> l_chan l = oldest # queued \<longrightarrow>
          queue_step s l Receive = l\<lparr>l_chan := queued, l_received := l_received l @ [oldest]\<rparr>)
     \<and> (l_pending l = Some cn \<longrightarrow>
          queue_step s l TimerFires =
            l\<lparr>l_pending := None,
              l_effects := l_effects l @
                [Log WarnLevel ''channel with listener %s is full, discarding TCP connection from %s'',
                 Close cn]\<rparr>)
     \<and> (length cs = nat (TcpMuxConfig.ChannelSize cfg) + 1
          \<and> evs = map (\<lambda>c. Arrive False (Inr c) True None) cs \<longrightarrow>
          l_chan l = butlast cs \<and> l_received l = [] \<and> l_pending l = Some (last cs)
          \<and> filter (\<lambda>e. e \<in> range Close) (l_effects l) = []
          \<and> last (l_effects l) = After (2 * Second))
     \<and> (length cs = nat (TcpMuxConfig.ChannelSize cfg) + 1
          \<and> evs = map (\<lambda>c. Arrive False (Inr c) True None) cs @ [TimerFires] \<longrightarrow>
          l_chan l = butlast cs \<and> l_received l = [] \<and> l_pending l = None
          \<and> filter (\<lambda>e. e \<in> range Close) (l_effects l) = [Close (last cs)])"
proof -
  from mux_server_fields [OF assms(1)]
  have cfg: "s_config s = cfg" and tmo: "s_timeout s = 2 * Second" by blast+
  let ?l0 = "localListener_start s remotePort"
  from assms(2,3) cfg have l: "l = foldl (queue_step s) ?l0 evs"
    by (simp add: localListener_def)
  have l0: "l_chan ?l0 = []" "l_received ?l0 = []" "l_pending ?l0 = None" "l_accepting ?l0"
    "l_cap ?l0 = nat (TcpMuxConfig.ChannelSize cfg)"
    "\<forall>d. After d \<in> set (l_effects ?l0) \<longrightarrow> d = s_timeout s"
    "filter (\<lambda>e. e \<in> range Close) (l_effects ?l0) = []"
    by (auto simp: localListener_start_def cfg)
  from queue_run_inv [OF l0(6) l0(1) l0(2) l0(3), of evs]
  have inv: "l_cap l = nat (TcpMuxConfig.ChannelSize cfg)"
    "length (l_chan l) \<le> nat (TcpMuxConfig.ChannelSize cfg)"
    "subseq (l_received l @ l_chan l @ pending_list l) (arrivals evs)"
    "\<forall>d. After d \<in> set (l_effects l) \<longrightarrow> d = 2 * Second"
    unfolding l using l0(5) tmo by simp_all
  have room: "l_accepting l \<and> l_pending l = None
          \<and> length (l_chan l) < nat (TcpMuxConfig.ChannelSize cfg) \<longrightarrow>
          queue_step s l (Arrive False (Inr new) True nd) =
            l\<lparr>l_chan := l_chan l @ [new],
              l_effects := l_effects l @
                (Log DebugLevel ''waiting to accept incoming connection on %s'' #
                 nodelayLog s nd @
                 [SetKeepAlive new True, SetKeepAlivePeriod new (TcpMuxConfig.KeepAlive cfg)]) @
                [After (2 * Second),
                 Log DebugLevel ''accepted incoming TCP connection from %s'']\<rparr>"
  proof
    assume a: "l_accepting l \<and> l_pending l = None
          \<and> length (l_chan l) < nat (TcpMuxConfig.ChannelSize cfg)"
    then have "length (l_chan l) < l_cap l" using inv(1) by simp
    from arrive_room [OF _ _ this, of s new nd] a
    show "queue_step s l (Arrive False (Inr new) True nd) =
            l\<lparr>l_chan := l_chan l @ [new],
              l_effects := l_effects l @
                (Log DebugLevel ''waiting to accept incoming connection on %s'' #
                 nodelayLog s nd @
                 [SetKeepAlive new True, SetKeepAlivePeriod new (TcpMuxConfig.KeepAlive cfg)]) @
                [After (2 * Second),
                 Log DebugLevel ''accepted incoming TCP connection from %s'']\<rparr>"
      by (simp add: cfg tmo del: queue_step.simps)
  qed
  have waits: "l_accepting l \<and> l_pending l = None
          \<and> length (l_chan l) = nat (TcpMuxConfig.ChannelSize cfg) \<longrightarrow>
          queue_step s l (Arrive False (Inr new) True nd) =
            l\<lparr>l_pending := Some new,
              l_effects := l_effects l @
                (Log DebugLevel ''waiting to accept incoming connection on %s'' #
                 nodelayLog s nd @
                 [SetKeepAlive new True, SetKeepAlivePeriod new (TcpMuxConfig.KeepAlive cfg)]) @
                [After (2 * Second)]\<rparr>"
  proof
    assume a: "l_accepting l \<and> l_pending l = None
          \<and> length (l_chan l) = nat (TcpMuxConfig.ChannelSize cfg)"
    then have "\<not> length (l_chan l) < l_cap l" using inv(1) by simp
    from arrive_full [OF _ _ this, of s new nd] a
    show "queue_step s l (Arrive False (Inr new) True nd) =
            l\<lparr>l_pending := Some new,
              l_effects := l_effects l @
                (Log DebugLevel ''waiting to accept incoming connection on %s'' #
                 nodelayLog s nd @
                 [SetKeepAlive new True, SetKeepAlivePeriod new (TcpMuxConfig.KeepAlive cfg)]) @
                [After (2 * Second)]\<rparr>"
      by (simp add: cfg tmo del: queue_step.simps)
  qed
  have blocked: "l_pending l = Some cn \<longrightarrow>
          queue_step s l (Arrive dn accepted isTCP nd) = l
          \<and> (l_chan l = oldest # queued \<longrightarrow>
               queue_step s l Receive =
                 l\<lparr>l_chan := queued @ [cn], l_pending := None,
                   l_received := l_received l @ [oldest],
                   l_effects := l_effects l @
                     [Log DebugLevel ''accepted incoming TCP connection from %s'']\<rparr>)
          \<and> (l_chan l = [] \<longrightarrow>
               queue_step s l Receive =
                 l\<lparr>l_pending := None, l_received := l_received l @ [cn],
                   l_effects := l_effects l @
                     [Log DebugLevel ''accepted incoming TCP connection from %s'']\<rparr>)"
    using arrive_blocked [of l cn s dn accepted isTCP nd] receive_waiting [of l cn oldest queued s]
      receive_handed [of l cn s]
    by blast
  have recv: "l_pending l = None \<and> l_chan l = oldest # queued \<longrightarrow>
          queue_step s l Receive = l\<lparr>l_chan := queued, l_received := l_received l @ [oldest]\<rparr>"
    using receive_queued [of l oldest queued s] by blast
  have timer: "l_pending l = Some cn \<longrightarrow>
          queue_step s l TimerFires =
            l\<lparr>l_pending := None,
              l_effects := l_effects l @
                [Log WarnLevel ''channel with listener %s is full, discarding TCP connection from %s'',
                 Close cn]\<rparr>"
    using timer_discards by blast
  have fill: "l2 = queue_step s (foldl (queue_step s) ?l0 (map (\<lambda>c. Arrive False (Inr c) True None) (butlast cs)))
                 (Arrive False (Inr (last cs)) True None) \<Longrightarrow>
          length cs = nat (TcpMuxConfig.ChannelSize cfg) + 1 \<Longrightarrow>
          l_pending l2 = Some (last cs) \<and> l_chan l2 = butlast cs \<and> l_received l2 = []
          \<and> filter (\<lambda>e. e \<in> range Close) (l_effects l2) = []
          \<and> last (l_effects l2) = After (2 * Second)
          \<and> foldl (queue_step s) ?l0 (map (\<lambda>c. Arrive False (Inr c) True None) cs) = l2" for l2
  proof -
    assume l2_def: "l2 = queue_step s (foldl (queue_step s) ?l0 (map (\<lambda>c. Arrive False (Inr c) True None) (butlast cs)))
                 (Arrive False (Inr (last cs)) True None)"
    assume a: "length cs = nat (TcpMuxConfig.ChannelSize cfg) + 1"
    then have ne: "cs \<noteq> []" by auto
    then have cs: "cs = butlast cs @ [last cs]" by simp
    define arr where "arr = (\<lambda>c. Arrive False (Inr c :: string + conn) True None)"
    define l1 where "l1 = foldl (queue_step s) ?l0 (map arr (butlast cs))"
    have l2_eq: "l2 = queue_step s l1 (arr (last cs))" unfolding l2_def l1_def arr_def ..
    have fits: "length (l_chan ?l0) + length (butlast cs) \<le> l_cap ?l0" using a l0 by simp
    from arrive_fill [OF l0(4) l0(3) fits, of s]
    have l1: "l_chan l1 = butlast cs" "l_pending l1 = None" "l_accepting l1"
      "l_cap l1 = nat (TcpMuxConfig.ChannelSize cfg)"
      "filter (\<lambda>e. e \<in> range Close) (l_effects l1) = []"
      "l_received l1 = []"
      unfolding l1_def arr_def using l0 by simp_all
    have full: "\<not> length (l_chan l1) < l_cap l1" using l1 a by simp
    have q2: "l2 = l1\<lparr>l_pending := Some (last cs),
       l_effects := l_effects l1 @
         (Log DebugLevel ''waiting to accept incoming connection on %s'' #
          nodelayLog s None @
          [SetKeepAlive (last cs) True,
           SetKeepAlivePeriod (last cs) (TcpMuxConfig.KeepAlive (s_config s))]) @
         [After (s_timeout s)]\<rparr>"
      unfolding l2_eq arr_def by (rule arrive_full [OF l1(3) l1(2) full])
    have p: "l_pending l2 = Some (last cs)" "l_chan l2 = butlast cs" "l_received l2 = []"
      "filter (\<lambda>e. e \<in> range Close) (l_effects l2) = []"
      using l1 nodelayLog_plain [of _ s None] by (auto simp: q2)
    have lst: "last (l_effects l2) = After (2 * Second)" by (simp add: q2 tmo)
    have "map arr cs = map arr (butlast cs) @ [arr (last cs)]"
      using cs by (metis list.simps(8,9) map_append)
    then have "foldl (queue_step s) ?l0 (map arr cs) = l2" unfolding l2_eq l1_def by simp
    with p lst show ?thesis unfolding arr_def by simp
  qed
  have pending: "length cs = nat (TcpMuxConfig.ChannelSize cfg) + 1
          \<and> evs = map (\<lambda>c. Arrive False (Inr c) True None) cs \<longrightarrow>
          l_chan l = butlast cs \<and> l_received l = [] \<and> l_pending l = Some (last cs)
          \<and> filter (\<lambda>e. e \<in> range Close) (l_effects l) = []
          \<and> last (l_effects l) = After (2 * Second)"
  proof
    assume a: "length cs = nat (TcpMuxConfig.ChannelSize cfg) + 1
          \<and> evs = map (\<lambda>c. Arrive False (Inr c) True None) cs"
    from fill [OF refl] a l
    show "l_chan l = butlast cs \<and> l_received l = [] \<and> l_pending l = Some (last cs)
          \<and> filter (\<lambda>e. e \<in> range Close) (l_effects l) = []
          \<and> last (l_effects l) = After (2 * Second)"
      by simp
  qed
  have overflow: "length cs = nat (TcpMuxConfig.ChannelSize cfg) + 1
          \<and> evs = map (\<lambda>c. Arrive False (Inr c) True None) cs @ [TimerFires] \<longrightarrow>
          l_chan l = butlast cs \<and> l_received l = [] \<and> l_pending l = None
          \<and> filter (\<lambda>e. e \<in> range Close) (l_effects l) = [Close (last cs)]"
  proof
    assume a: "length cs = nat (TcpMuxConfig.ChannelSize cfg) + 1
          \<and> evs = map (\<lambda>c. Arrive False (Inr c) True None) cs @ [TimerFires]"
    define l2 where "l2 = queue_step s (foldl (queue_step s) ?l0 (map (\<lambda>c. Arrive False (Inr c) True None) (butlast cs)))
                 (Arrive False (Inr (last cs)) True None)"
    from fill [OF l2_def] a
    have l2: "l_pending l2 = Some (last cs)" "l_chan l2 = butlast cs" "l_received l2 = []"
      "filter (\<lambda>e. e \<in> range Close) (l_effects l2) = []"
      "foldl (queue_step s) ?l0 (map (\<lambda>c. Arrive False (Inr c) True None) cs) = l2"
      by simp_all
    have "l = queue_step s l2 TimerFires" unfolding l using a l2(5) by simp
    also have "\<dots> = l2\<lparr>l_pending := None,
       l_effects := l_effects l2 @
         [Log WarnLevel ''channel with listener %s is full, discarding TCP connection from %s'',
          Close (last cs)]\<rparr>"
      by (rule timer_discards [OF l2(1)])
    finally show "l_chan l = butlast cs \<and> l_received l = [] \<and> l_pending l = None
          \<and> filter (\<lambda>e. e \<in> range Close) (l_effects l) = [Close (last cs)]"
      using l2 by auto
  qed
  show ?thesis using inv room waits blocked recv timer pending overflow by blast
qed

theorem C7_accept_queue_witness:
  "l_chan (projr (localListener scenario_server '':9000'' 22 None
       (map (\<lambda>c. Arrive False (Inr c) True None) [40, 41, 42]))) = [40, 41]
   \<and> l_pending (projr (localListener scenario_server '':9000'' 22 None
       (map (\<lambda>c. Arrive False (Inr c) True None) [40, 41, 42]))) = Some 42
   \<and> filter (\<lambda>e. e \<in> range Close)
       (l_effects (projr (localListener scenario_server '':9000'' 22 None
         (map (\<lambda>c. Arrive False (Inr c) True None) [40, 41, 42])))) = []
   \<and> last (l_effects (projr (localListener scenario_server '':9000'' 22 None
         (map (\<lambda>c. Arrive False (Inr c) True None) [40, 41, 42])))) = After (2 * Second)
   \<and> l_cap (projr (localListener scenario_server '':9000'' 22 None
       (map (\<lambda>c. Arrive False (Inr c) True None) [40, 41, 42] @ [TimerFires]))) = 2
   \<and> l_chan (projr (localListener scenario_server '':9000'' 22 None
       (map (\<lambda>c. Arrive False (Inr c) True None) [40, 41, 42] @ [TimerFires]))) = [40, 41]
   \<and> l_pending (projr (localListener scenario_server '':9000'' 22 None
       (map (\<lambda>c. Arrive False (Inr c) True None) [40, 41, 42] @ [TimerFires]))) = None
   \<and> filter (\<lambda>e. e \<in> range Close)
       (l_effects (projr (localListener scenario_server '':9000'' 22 None
         (map (\<lambda>c. Arrive False (Inr c) True None) [40, 41, 42] @ [TimerFires])))) = [Close 42]"
proof -
  define evs where "evs = map (\<lambda>c. Arrive False (Inr c :: string + conn) True None) [40, 41, 42] @ [TimerFires]"
  define evs' where "evs' = map (\<lambda>c. Arrive False (Inr c :: string + conn) True None) [40, 41, 42]"
  define l where "l = projr (localListener scenario_server '':9000'' 22 None evs)"
  define l' where "l' = projr (localListener scenario_server '':9000'' 22 None evs')"
  have size: "0 \<le> TcpMuxConfig.ChannelSize scenario_TcpMuxConfig"
    "nat (TcpMuxConfig.ChannelSize scenario_TcpMuxConfig) = 2"
    by (simp_all add: scenario_TcpMuxConfig_def)
  have "TcpMuxConfig.ChannelSize (s_config scenario_server) = 2"
    by (simp add: scenario_server_def scenario_TcpMuxConfig_def)
  then have run: "localListener scenario_server '':9000'' 22 None evs = Inr l"
    and run': "localListener scenario_server '':9000'' 22 None evs' = Inr l'"
    unfolding l_def l'_def by (simp_all add: localListener_def)
  have len: "length [40, 41, 42 :: conn] = nat (TcpMuxConfig.ChannelSize scenario_TcpMuxConfig) + 1
     \<and> evs = map (\<lambda>c. Arrive False (Inr c) True None) [40, 41, 42] @ [TimerFires]"
    and len': "length [40, 41, 42 :: conn] = nat (TcpMuxConfig.ChannelSize scenario_TcpMuxConfig) + 1
     \<and> evs' = map (\<lambda>c. Arrive False (Inr c) True None) [40, 41, 42]"
    by (simp_all add: size evs_def evs'_def)
  from C7_accept_queue [OF scenario_server_reachable size(1) run, where cs = "[40, 41, 42]"] len size
  have a: "l_cap l = 2 \<and> l_chan l = [40, 41] \<and> l_pending l = None
     \<and> filter (\<lambda>e. e \<in> range Close) (l_effects l) = [Close 42]"
    by simp
  from C7_accept_queue [OF scenario_server_reachable size(1) run', where cs = "[40, 41, 42]"] len' size
  have b: "l_chan l' = [40, 41] \<and> l_pending l' = Some 42
     \<and> filter (\<lambda>e. e \<in> range Close) (l_effects l') = []
     \<and> last (l_effects l') = After (2 * Second)"
    by simp
  from a b show ?thesis unfolding l_def l'_def evs_def evs'_def by blast
qed

subsection \<open>The port-mapping parser\<close>

lemma is_digit_plain:
  "is_digit c \<Longrightarrow>
     c \<noteq> CHR ''['' \<and> c \<noteq> CHR '':'' \<and> c \<noteq> CHR '']'' \<and> c \<noteq> CHR ''='' \<and> c \<noteq> CHR 0x0A
     \<and> c \<noteq> CHR ''-'' \<and> c \<noteq> CHR ''+'' \<and> 0 \<le> digit_val c"
  by (auto simp: is_digit_def digit_val_def)

lemma digits_span:
  assumes "digits ds" and "\<not> is_digit c"
  shows "takeWhile is_digit (ds @ c # r) = ds" and "dropWhile is_digit (ds @ c # r) = c # r"
  using assms by (simp_all add: digits_def list_all_iff takeWhile_tail dropWhile_append2)

lemma digits_whole:
  assumes "digits ds"
  shows "takeWhile is_digit ds = ds" and "dropWhile is_digit ds = []" and "ds \<noteq> []"
  using assms by (simp_all add: digits_def list_all_iff)

lemma digits_hd:
  "digits ds \<Longrightarrow> \<exists>c cs. ds = c # cs \<and> is_digit c"
  by (cases ds) (simp_all add: digits_def)

lemma digits_chars:
  "digits ds \<Longrightarrow> CHR ''='' \<notin> set ds \<and> CHR 0x0A \<notin> set ds"
  using is_digit_plain by (auto simp: digits_def list_all_iff)

lemma split_lines_single: "CHR 0x0A \<notin> set str \<Longrightarrow> split_lines str = [str]"
  by (induction str) auto

lemma dec_val_nonneg:
  assumes "list_all is_digit ds"
  shows "0 \<le> dec_val ds"
proof -
  have "0 \<le> n \<Longrightarrow> list_all is_digit ds \<Longrightarrow> 0 \<le> foldl (\<lambda>n c. 10 * n + digit_val c) n ds" for n
  proof (induction ds arbitrary: n)
    case Nil
    then show ?case by simp
  next
    case (Cons c cs)
    then have "0 \<le> 10 * n + digit_val c" using is_digit_plain [of c] by simp
    from Cons.IH [OF this] Cons.prems(2) show ?case by simp
  qed
  with assms show ?thesis by (simp add: dec_val_def)
qed

lemma Atoi_digits:
  assumes "digits ds"
  shows "Atoi ds = min (dec_val ds) maxInt" and "0 \<le> Atoi ds" and "Atoi ds \<le> maxInt"
proof -
  from digits_hd [OF assms] obtain c cs where ds: "ds = c # cs" and c: "is_digit c" by blast
  with is_digit_plain [OF c] assms show a: "Atoi ds = min (dec_val ds) maxInt"
    by (simp add: Atoi_def)
  have "0 \<le> dec_val ds" using assms by (intro dec_val_nonneg) (simp add: digits_def)
  then show "0 \<le> Atoi ds" by (simp add: a maxInt_def)
  show "Atoi ds \<le> maxInt" by (simp add: a)
qed

lemma match_remote_forms:
  "match_remote [] = Some []" "digits c \<Longrightarrow> match_remote (CHR ''='' # c) = Some c"
  by (simp_all add: match_remote_def)

lemma not_digit_chars:
  "\<not> is_digit (CHR '':'')" "\<not> is_digit (CHR '']'')" "\<not> is_digit (CHR ''='')" "\<not> is_digit (CHR ''['')"
  by (simp_all add: is_digit_def)

lemma match_bracket_forms:
  assumes "digits a" and "digits b"
  shows "match_bracket (spec_render (Bracket a b None)) = Some [a, b, [], [], [], []]"
    and "digits c \<Longrightarrow> match_bracket (spec_render (Bracket a b (Some c))) = Some [a, b, c, [], [], []]"
  using assms
  by (simp_all add: match_bracket_def digits_span digits_whole not_digit_chars match_remote_forms)

lemma match_bracket_digit:
  assumes "digits a"
  shows "match_bracket (a @ r) = None"
proof -
  from digits_hd [OF assms] obtain c cs where "a = c # cs" "is_digit c" by blast
  with is_digit_plain [of c] show ?thesis by (simp add: match_bracket_def)
qed

lemma match_bracket_plain:
  assumes "digits a"
  shows "match_bracket (spec_render (Plain a b c)) = None"
proof -
  have "\<exists>r. spec_render (Plain a b c) = a @ r" by (cases b; cases c) simp_all
  then show ?thesis using match_bracket_digit [OF assms] by auto
qed

lemma match_plain_forms:
  assumes "digits a"
  shows "match_plain (spec_render (Plain a None None)) = Some [[], [], [], a, [], []]"
    and "digits b \<Longrightarrow> match_plain (spec_render (Plain a (Some b) None)) = Some [[], [], [], a, b, []]"
    and "digits c \<Longrightarrow> match_plain (spec_render (Plain a None (Some c))) = Some [[], [], [], a, [], c]"
    and "digits b \<Longrightarrow> digits c \<Longrightarrow>
           match_plain (spec_render (Plain a (Some b) (Some c))) = Some [[], [], [], a, b, c]"
  using assms
  by (simp_all add: match_plain_def digits_span digits_whole not_digit_chars match_remote_forms)

lemma match_line_render:
  assumes "spec_wf m"
  shows "match_line (spec_render m) = Some (spec_groups m)"
proof (cases m)
  case (Bracket a b c)
  with assms show ?thesis
    by (cases c)
      (simp_all add: match_line_def match_bracket_forms spec_groups_def del: spec_render.simps)
next
  case (Plain a b c)
  with assms have a: "digits a" by simp
  show ?thesis
    using assms Plain match_bracket_plain [OF a] match_plain_forms [OF a]
    by (cases b; cases c) (simp_all add: match_line_def spec_groups_def del: spec_render.simps)
qed

lemma render_chars:
  assumes "spec_wf m"
  shows "CHR 0x0A \<notin> set (spec_render m)"
    and "(CHR ''='' \<in> set (spec_render m)) = (spec_remotePort m \<noteq> None)"
proof -
  show "CHR 0x0A \<notin> set (spec_render m)"
  proof (cases m)
    case (Bracket a b c)
    with assms show ?thesis using digits_chars by (cases c) auto
  next
    case (Plain a b c)
    with assms show ?thesis using digits_chars by (cases b; cases c) auto
  qed
  show "(CHR ''='' \<in> set (spec_render m)) = (spec_remotePort m \<noteq> None)"
  proof (cases m)
    case (Bracket a b c)
    with assms show ?thesis using digits_chars by (cases c) auto
  next
    case (Plain a b c)
    with assms show ?thesis using digits_chars by (cases b; cases c) auto
  qed
qed

lemma FindStringSubmatch_render:
  assumes "spec_wf m"
  shows "FindStringSubmatch (spec_render m) = Some (spec_groups m)"
  using split_lines_single [OF render_chars(1) [OF assms]] match_line_render [OF assms]
  by (simp add: FindStringSubmatch_def)

lemma rangeLoop_returns:
  assumes "endRange < maxInt" and "i \<le> endRange + 1"
  shows "rangeLoop i endRange remote spawned =
           Some (spawned @ map (\<lambda>p. Go (go_localListener ('':'' @ Itoa p)
                                       (if remote = - 1 then p else remote))) [i .. endRange])"
  using assms
proof (induction "nat (endRange + 1 - i)" arbitrary: i spawned)
  case 0
  then have "\<not> i \<le> endRange" by simp
  then show ?case by (subst rangeLoop.simps) simp
next
  case (Suc k)
  then have le: "i \<le> endRange" and ne: "i \<noteq> maxInt" by auto
  have k: "k = nat (endRange + 1 - (i + 1))" using Suc.hyps(2) by simp
  have up: "[i .. endRange] = i # [i + 1 .. endRange]" using le by (rule upto_rec1)
  from Suc.hyps(1) [OF k Suc.prems(1), of "spawned @ [Go (go_localListener ('':'' @ Itoa i)
      (if remote = - 1 then i else remote))]"] le
  show ?case by (subst rangeLoop.simps) (simp add: le ne up)
qed

lemma rangeLoop_runs_on:
  assumes "rangeLoop i endRange remote spawned = Some y"
  shows "\<not> (endRange = maxInt \<and> i \<le> maxInt)"
proof (rule rangeLoop.raw_induct [where P = "\<lambda>i endRange remote spawned y.
    \<not> (endRange = maxInt \<and> i \<le> maxInt)", OF _ assms])
  fix rl :: "int \<Rightarrow> int \<Rightarrow> int \<Rightarrow> effect list \<Rightarrow> effect list option"
  fix i endRange remote :: int and spawned y :: "effect list"
  assume IH: "\<And>i endRange remote spawned y. rl i endRange remote spawned = Some y \<Longrightarrow>
      \<not> (endRange = maxInt \<and> i \<le> maxInt)"
  assume body: "(if i \<le> endRange
      then rl (if i = maxInt then minInt else i + 1) endRange remote
            (spawned @ [Go (go_localListener ('':'' @ Itoa i) (if remote = - 1 then i else remote))])
      else Some spawned) = Some y"
  show "\<not> (endRange = maxInt \<and> i \<le> maxInt)"
  proof
    assume a: "endRange = maxInt \<and> i \<le> maxInt"
    then have "rl (if i = maxInt then minInt else i + 1) endRange remote
          (spawned @ [Go (go_localListener ('':'' @ Itoa i) (if remote = - 1 then i else remote))]) = Some y"
      using body by simp
    from IH [OF this] a show False by (auto simp: maxInt_def minInt_def split: if_splits)
  qed
qed

lemma rangeLoop_never_ends:
  "i \<le> maxInt \<Longrightarrow> rangeLoop i maxInt remote spawned = None"
  using rangeLoop_runs_on [of i maxInt remote spawned] by (cases "rangeLoop i maxInt remote spawned") auto


lemma range_outcome:
  assumes "startRange \<le> maxInt" and "endRange \<le> maxInt"
  shows "(if startRange > endRange then
            Some ([Log FatalLevel ''Invalid range: %d %d'', Exit], False)
          else (case rangeLoop startRange endRange remote [] of
                  None \<Rightarrow> None
                | Some es \<Rightarrow> Some (es, True))) =
         (if startRange > endRange then
            Some ([Log FatalLevel ''Invalid range: %d %d'', Exit], False)
          else if endRange = maxInt then None
          else Some (map (\<lambda>p. Go (go_localListener ('':'' @ Itoa p)
                                    (if remote = - 1 then p else remote))) [startRange .. endRange],
                     True))"
proof (cases "startRange > endRange")
  case True
  then show ?thesis by simp
next
  case le: False
  show ?thesis
  proof (cases "endRange = maxInt")
    case True
    with le assms rangeLoop_never_ends [of startRange remote "[]"] show ?thesis by simp
  next
    case False
    with assms have "endRange < maxInt" by simp
    from rangeLoop_returns [OF this, of startRange remote "[]"] le False show ?thesis by simp
  qed
qed

lemma portMapping_render:
  assumes "spec_wf m"
  shows "portMapping (spec_render m) =
     (if spec_localStart m > spec_localEnd m then
        Some ([Log FatalLevel ''Invalid range: %d %d'', Exit], False)
      else if spec_localEnd m = maxInt then None
      else Some (spec_listeners m, True))"
proof -
  note F = FindStringSubmatch_render [OF assms]
  note E = render_chars(2) [OF assms]
  show ?thesis
  proof (cases m)
    case (Bracket a b c)
    with assms have d: "digits a" "digits b" by simp_all
    note A = Atoi_digits(2,3) [OF d(1)] Atoi_digits(2,3) [OF d(2)] digits_whole(3) [OF d(1)] digits_whole(3) [OF d(2)]
    show ?thesis
    proof (cases c)
      case None
      have t: "spec_localStart m = Atoi a" "spec_localEnd m = Atoi b" "spec_remotePort m = None"
        by (simp_all add: Bracket None)
      have vg: "validGroups (spec_groups m) = [Atoi a, Atoi b]"
        using A by (simp add: validGroups_def spec_groups_def Bracket None)
      have hr: "CHR ''='' \<notin> set (spec_render m)" using E t by simp
      have pm: "portMapping (spec_render m) =
          (if Atoi a > Atoi b then Some ([Log FatalLevel ''Invalid range: %d %d'', Exit], False)
           else (case rangeLoop (Atoi a) (Atoi b) (- 1) [] of
                  None \<Rightarrow> None | Some es \<Rightarrow> Some (es, True)))"
        by (simp add: portMapping_def F vg hr Let_def)
      show ?thesis
        using range_outcome [of "Atoi a" "Atoi b" "- 1"] A
        by (simp add: pm spec_listeners_def t)
    next
      case (Some r)
      with assms Bracket have dr: "digits r" by simp
      note R = Atoi_digits(2,3) [OF dr] digits_whole(3) [OF dr]
      have t: "spec_localStart m = Atoi a" "spec_localEnd m = Atoi b" "spec_remotePort m = Some (Atoi r)"
        by (simp_all add: Bracket Some)
      have vg: "validGroups (spec_groups m) = [Atoi a, Atoi b, Atoi r]"
        using A R by (simp add: validGroups_def spec_groups_def Bracket Some)
      have hr: "CHR ''='' \<in> set (spec_render m)" using E t by simp
      have pm: "portMapping (spec_render m) =
          (if Atoi a > Atoi b then Some ([Log FatalLevel ''Invalid range: %d %d'', Exit], False)
           else (case rangeLoop (Atoi a) (Atoi b) (Atoi r) [] of
                  None \<Rightarrow> None | Some es \<Rightarrow> Some (es, True)))"
        by (simp add: portMapping_def F vg hr Let_def)
      have nr: "Atoi r \<noteq> - 1" using R by simp
      show ?thesis
        using range_outcome [of "Atoi a" "Atoi b" "Atoi r"] A R nr
        by (simp add: pm spec_listeners_def t)
    qed
  next
    case (Plain a b c)
    with assms have da: "digits a" by simp
    note A = Atoi_digits(2,3) [OF da] digits_whole(3) [OF da]
    show ?thesis
    proof (cases b)
      case nb: None
      show ?thesis
      proof (cases c)
        case None
        have t: "spec_localStart m = Atoi a" "spec_localEnd m = Atoi a" "spec_remotePort m = None"
          by (simp_all add: Plain nb None)
        have vg: "validGroups (spec_groups m) = [Atoi a]"
          using A by (simp add: validGroups_def spec_groups_def Plain nb None)
        have hr: "CHR ''='' \<notin> set (spec_render m)" using E t by simp
        have pm: "portMapping (spec_render m) =
            (if Atoi a > Atoi a then Some ([Log FatalLevel ''Invalid range: %d %d'', Exit], False)
             else (case rangeLoop (Atoi a) (Atoi a) (- 1) [] of
                    None \<Rightarrow> None | Some es \<Rightarrow> Some (es, True)))"
          by (simp add: portMapping_def F vg hr Let_def)
        show ?thesis
          using range_outcome [of "Atoi a" "Atoi a" "- 1"] A
          by (simp add: pm spec_listeners_def t)
      next
        case (Some r)
        with assms Plain have dr: "digits r" by simp
        note R = Atoi_digits(2,3) [OF dr] digits_whole(3) [OF dr]
        have t: "spec_localStart m = Atoi a" "spec_localEnd m = Atoi a" "spec_remotePort m = Some (Atoi r)"
          by (simp_all add: Plain nb Some)
        have vg: "validGroups (spec_groups m) = [Atoi a, Atoi r]"
          using A R by (simp add: validGroups_def spec_groups_def Plain nb Some)
        have hr: "CHR ''='' \<in> set (spec_render m)" using E t by simp
        have pm: "portMapping (spec_render m) =
            (if Atoi a > Atoi a then Some ([Log FatalLevel ''Invalid range: %d %d'', Exit], False)
             else (case rangeLoop (Atoi a) (Atoi a) (Atoi r) [] of
                    None \<Rightarrow> None | Some es \<Rightarrow> Some (es, True)))"
          by (simp add: portMapping_def F vg hr Let_def)
        have nr: "Atoi r \<noteq> - 1" using R by simp
        show ?thesis
          using range_outcome [of "Atoi a" "Atoi a" "Atoi r"] A R nr
          by (simp add: pm spec_listeners_def t)
      qed
    next
      case sb: (Some e)
      with assms Plain have de: "digits e" by simp
      note B = Atoi_digits(2,3) [OF de] digits_whole(3) [OF de]
      show ?thesis
      proof (cases c)
        case None
        have t: "spec_localStart m = Atoi a" "spec_localEnd m = Atoi e" "spec_remotePort m = None"
          by (simp_all add: Plain sb None)
        have vg: "validGroups (spec_groups m) = [Atoi a, Atoi e]"
          using A B by (simp add: validGroups_def spec_groups_def Plain sb None)
        have hr: "CHR ''='' \<notin> set (spec_render m)" using E t by simp
        have pm: "portMapping (spec_render m) =
            (if Atoi a > Atoi e then Some ([Log FatalLevel ''Invalid range: %d %d'', Exit], False)
             else (case rangeLoop (Atoi a) (Atoi e) (- 1) [] of
                    None \<Rightarrow> None | Some es \<Rightarrow> Some (es, True)))"
          by (simp add: portMapping_def F vg hr Let_def)
        show ?thesis
          using range_outcome [of "Atoi a" "Atoi e" "- 1"] A B
          by (simp add: pm spec_listeners_def t)
      next
        case (Some r)
        with assms Plain have dr: "digits r" by simp
        note R = Atoi_digits(2,3) [OF dr] digits_whole(3) [OF dr]
        have t: "spec_localStart m = Atoi a" "spec_localEnd m = Atoi e" "spec_remotePort m = Some (Atoi r)"
          by (simp_all add: Plain sb Some)
        have vg: "validGroups (spec_groups m) = [Atoi a, Atoi e, Atoi r]"
          using A B R by (simp add: validGroups_def spec_groups_def Plain sb Some)
        have hr: "CHR ''='' \<in> set (spec_render m)" using E t by simp
        have pm: "portMapping (spec_render m) =
            (if Atoi a > Atoi e then Some ([Log FatalLevel ''Invalid range: %d %d'', Exit], False)
             else (case rangeLoop (Atoi a) (Atoi e) (Atoi r) [] of
                    None \<Rightarrow> None | Some es \<Rightarrow> Some (es, True)))"
          by (simp add: portMapping_def F vg hr Let_def)
        have nr: "Atoi r \<noteq> - 1" using R by simp
        show ?thesis
          using range_outcome [of "Atoi a" "Atoi e" "Atoi r"] A B R nr
          by (simp add: pm spec_listeners_def t)
      qed
    qed
  qed
qed


lemma portMappings_render:
  assumes "\<forall>e\<in>set ms. spec_wf e \<and> spec_localStart e \<le> spec_localEnd e \<and> spec_localEnd e < maxInt"
  shows "portMappings (map spec_render ms) = Some (concat (map spec_listeners ms), True)"
  using assms
proof (induction ms)
  case Nil
  then show ?case by simp
next
  case (Cons e ms)
  then have e: "spec_wf e" "spec_localStart e \<le> spec_localEnd e" "spec_localEnd e < maxInt"
    and rest: "portMappings (map spec_render ms) = Some (concat (map spec_listeners ms), True)"
    by simp_all
  from portMapping_render [OF e(1)] e(2,3)
  have "portMapping (spec_render e) = Some (spec_listeners e, True)" by simp
  with rest show ?case by simp
qed




















subsection \<open>The port header\<close>









end
